theory Spec2Isabelle
  imports Complex_Main "HOL-Library.Word"
begin

unbundle bit_operations_syntax

section \<open>JailedThreeJS: values\<close>

text \<open>
  The engine is JavaScript. A JavaScript number is modelled by \<open>jsnum\<close>: a finite
  value (a real, computed exactly: rounding and overflow of IEEE doubles are not
  modelled), \<open>NaN\<close>, or one of the two infinities. The arithmetic below follows the
  IEEE rules for the non-finite cases (signed zeros are not distinguished).
\<close>

datatype jsnum = Fin real | NaN | PosInf | NegInf

fun jneg :: "jsnum \<Rightarrow> jsnum" where
  "jneg (Fin a) = Fin (- a)"
| "jneg NaN = NaN"
| "jneg PosInf = NegInf"
| "jneg NegInf = PosInf"

fun jadd :: "jsnum \<Rightarrow> jsnum \<Rightarrow> jsnum" where
  "jadd (Fin a) (Fin b) = Fin (a + b)"
| "jadd NaN _ = NaN"
| "jadd _ NaN = NaN"
| "jadd PosInf NegInf = NaN"
| "jadd NegInf PosInf = NaN"
| "jadd PosInf _ = PosInf"
| "jadd _ PosInf = PosInf"
| "jadd NegInf _ = NegInf"
| "jadd _ NegInf = NegInf"

definition jsub :: "jsnum \<Rightarrow> jsnum \<Rightarrow> jsnum" where
  "jsub a b = jadd a (jneg b)"

text \<open>The sign of a number that is not NaN: \<open>-1\<close>, \<open>0\<close> or \<open>1\<close>.\<close>

fun jsign :: "jsnum \<Rightarrow> int" where
  "jsign (Fin a) = (if a < 0 then - 1 else if a = 0 then 0 else 1)"
| "jsign PosInf = 1"
| "jsign NegInf = - 1"
| "jsign NaN = 0"

fun jmul :: "jsnum \<Rightarrow> jsnum \<Rightarrow> jsnum" where
  "jmul (Fin a) (Fin b) = Fin (a * b)"
| "jmul NaN _ = NaN"
| "jmul _ NaN = NaN"
| "jmul PosInf b = (if jsign b = 0 then NaN else if jsign b < 0 then NegInf else PosInf)"
| "jmul NegInf b = (if jsign b = 0 then NaN else if jsign b < 0 then PosInf else NegInf)"
| "jmul a PosInf = (if jsign a = 0 then NaN else if jsign a < 0 then NegInf else PosInf)"
| "jmul a NegInf = (if jsign a = 0 then NaN else if jsign a < 0 then PosInf else NegInf)"

text \<open>\<open>Number.isFinite\<close> on a number.\<close>

fun isFinite :: "jsnum \<Rightarrow> bool" where
  "isFinite (Fin _) = True"
| "isFinite _ = False"

text \<open>The comparisons \<open>x > 0\<close> and \<open>x <= 0\<close>; both are false for NaN.\<close>

fun gt0 :: "jsnum \<Rightarrow> bool" where
  "gt0 (Fin a) = (0 < a)"
| "gt0 PosInf = True"
| "gt0 _ = False"

fun le0 :: "jsnum \<Rightarrow> bool" where
  "le0 (Fin a) = (a \<le> 0)"
| "le0 NegInf = True"
| "le0 _ = False"

text \<open>
  The values that reach the animator and the style resolver: numbers, strings,
  booleans, \<open>null\<close>, \<open>undefined\<close>, arrays (of any values: \<open>Euler.toArray()\<close> of the
  graphics library returns \<open>[x, y, z, 'XYZ']\<close>), promises (identified by a number) and
  other objects and functions (\<open>Ref\<close>, identified by a number).

  \<open>Mixed a b t\<close> is the value of the expression \<open>a + (b - a) * t\<close> when \<open>a\<close> and \<open>b\<close>
  are not both numbers. JavaScript coerces the operands: \<open>(b - a) * t\<close> is a number,
  and the sum is a string (a concatenation) when \<open>a\<close> is a string or an object, a
  number otherwise; an object is taken to convert to a string, as arrays, plain
  objects and functions do. The model does not evaluate the coercions (the decimal
  text of a number is not modelled), so such a value stays symbolic; it only arises as
  an element of an interpolated array.
\<close>

datatype jsval =
    Num jsnum | Str string | Bool bool | Null | Undefined
  | Arr "jsval list" | Ref nat | Promise nat
  | Mixed jsval jsval jsnum

text \<open>\<open>a + n\<close> for a number \<open>n\<close> is a string concatenation.\<close>

fun concatenates :: "jsval \<Rightarrow> bool" where
  "concatenates (Str _) = True"
| "concatenates (Arr _) = True"
| "concatenates (Ref _) = True"
| "concatenates (Promise _) = True"
| "concatenates (Mixed a _ _) = concatenates a"
| "concatenates _ = False"

text \<open>\<open>typeof v === 'number'\<close> and \<open>Array.isArray(v)\<close>.\<close>

fun is_number :: "jsval \<Rightarrow> bool" where
  "is_number (Num _) = True"
| "is_number (Mixed a _ _) = (\<not> concatenates a)"
| "is_number _ = False"

fun is_array :: "jsval \<Rightarrow> bool" where
  "is_array (Arr _) = True"
| "is_array _ = False"

section \<open>Train.js: interpolation\<close>

text \<open>\<open>lerpNumber(a, b, t) = a + (b - a) * t\<close>.\<close>

fun lerpNumber :: "jsval \<Rightarrow> jsval \<Rightarrow> jsnum \<Rightarrow> jsval" where
  "lerpNumber (Num a) (Num b) t = Num (jadd a (jmul (jsub b a) t))"
| "lerpNumber a b t = Mixed a b t"

text \<open>
  \<open>lerpArray\<close>: the loop \<open>for (i = 0; i < maxLen; i++)\<close> fills \<open>out[i]\<close>; the three
  branches are the source's \<open>hasFrom && hasTo\<close>, \<open>hasFrom\<close> and the final else.
\<close>

definition lerpArray :: "'a list \<Rightarrow> 'a list \<Rightarrow> 't \<Rightarrow> ('a \<Rightarrow> 'a \<Rightarrow> 't \<Rightarrow> 'a) \<Rightarrow> 'a list" where
  "lerpArray from to t lerpMethod =
     map (\<lambda>i. if i < length from \<and> i < length to then lerpMethod (from ! i) (to ! i) t
              else if i < length from then from ! i
              else to ! i)
         [0 ..< max (length from) (length to)]"

text \<open>\<open>lerpValue\<close>: numbers, arrays, and \<open>to\<close> for mixed or unsupported types.\<close>

definition lerpValue :: "jsval \<Rightarrow> jsval \<Rightarrow> jsnum \<Rightarrow> (jsval \<Rightarrow> jsval \<Rightarrow> jsnum \<Rightarrow> jsval) \<Rightarrow> jsval" where
  "lerpValue from to t lerpMethod =
     (if is_number from \<and> is_number to then lerpMethod from to t
      else case (from, to) of
          (Arr xs, Arr ys) \<Rightarrow> Arr (lerpArray xs ys t lerpMethod)
        | _ \<Rightarrow> to)"

section \<open>Train.js: animateLerp\<close>

text \<open>
  The callbacks an animation invokes: \<open>onUpdate(value, easedT)\<close> and
  \<open>onComplete(finalValue)\<close>. Both parameters are optional in the source
  (\<open>if (onUpdate) ...\<close>, \<open>if (onComplete) ...\<close>): a boolean says whether the caller
  passed one, and \<open>call\<close> is the guarded invocation.
\<close>

datatype cb_event = OnUpdate jsval jsnum | OnComplete jsval

definition call :: "bool \<Rightarrow> cb_event \<Rightarrow> cb_event list" where
  "call cb e = (if cb then [e] else [])"

text \<open>\<open>isAnimatable = v => typeof v === 'number' || Array.isArray(v)\<close>.\<close>

definition isAnimatable :: "jsval \<Rightarrow> bool" where
  "isAnimatable v = (is_number v \<or> is_array v)"

text \<open>
  The variables the closure \<open>step\<close> captures once \<open>requestAnimationFrame(step)\<close> has
  been called: \<open>from\<close>, \<open>to\<close>, \<open>durationMs\<close> (finite and positive there), \<open>start\<close>
  (\<open>performance.now()\<close> at the call), the timing function's name and the callbacks.
\<close>

record running =
  r_from :: jsval
  r_to :: jsval
  r_duration :: real
  r_start :: real
  r_timing :: string
  r_onUpdate :: bool
  r_onComplete :: bool

text \<open>
  What a call of \<open>animateLerp\<close> has done when it returns: either it took
  \<open>finishInstant\<close> (the callbacks listed were invoked synchronously and no frame was
  requested), or it requested a frame for \<open>step\<close>.
\<close>

datatype animation = Instant "cb_event list" | Scheduled running

definition finishInstant :: "jsval \<Rightarrow> bool \<Rightarrow> bool \<Rightarrow> cb_event list" where
  "finishInstant to onUpdate onComplete =
     call onUpdate (OnUpdate to (Fin 1)) @ call onComplete (OnComplete to)"

text \<open>
  \<open>animateLerp(from, to, durationMs, onUpdate, onComplete, timingFunction)\<close>.
  \<open>durationMs\<close> is any value: \<open>Number.isFinite\<close> is false for whatever is not a
  number. (The engine passes \<open>transition.duration\<close> and \<open>segmentMs\<close>; a symbolic
  \<open>Mixed\<close> value is not evaluated and counts as not finite.) \<open>now\<close> is the reading of
  \<open>performance.now()\<close>.
\<close>

definition animateLerp ::
  "real \<Rightarrow> jsval \<Rightarrow> jsval \<Rightarrow> jsval \<Rightarrow> bool \<Rightarrow> bool \<Rightarrow> string \<Rightarrow> animation" where
  "animateLerp now from to durationMs onUpdate onComplete timingFunction =
     (if \<not> isAnimatable from \<or> \<not> isAnimatable to
      then Instant (finishInstant to onUpdate onComplete)
      else case durationMs of
          Num (Fin d) \<Rightarrow>
            if d \<le> 0 then Instant (finishInstant to onUpdate onComplete)
            else Scheduled \<lparr>r_from = from, r_to = to, r_duration = d, r_start = now,
                   r_timing = timingFunction, r_onUpdate = onUpdate, r_onComplete = onComplete\<rparr>
        | _ \<Rightarrow> Instant (finishInstant to onUpdate onComplete))"

text \<open>
  One frame: \<open>step(now)\<close>. The easing function \<open>_get_Equation(timingFunction)\<close> (the
  presets and \<open>cubic-bezier(...)\<close>, solved by Newton iteration in floating point) is
  the parameter \<open>eqn\<close>. The result is the callbacks invoked in this frame and whether
  \<open>requestAnimationFrame(step)\<close> was called again (\<open>t < 1\<close>).
\<close>

definition step :: "(string \<Rightarrow> real \<Rightarrow> jsnum) \<Rightarrow> running \<Rightarrow> real \<Rightarrow> cb_event list \<times> bool" where
  "step eqn r now =
     (let t0 = (now - r_start r) / r_duration r;
          t = (if t0 \<ge> 1 then 1 else t0);
          easedT = eqn (r_timing r) t;
          v = lerpValue (r_from r) (r_to r) easedT lerpNumber
      in (call (r_onUpdate r) (OnUpdate v easedT)
            @ (if t < 1 then [] else call (r_onComplete r) (OnComplete v)),
          t < 1))"


section \<open>Strings and the built-in parsers\<close>

text \<open>
  A string is a list of ASCII characters. The helpers below are the built-ins the
  source calls: \<open>trim\<close>, \<open>toLowerCase\<close>, \<open>split(/\s+/).filter(Boolean)\<close>,
  \<open>startsWith\<close>, \<open>endsWith\<close>, \<open>/\d/.test\<close>, \<open>parseFloat\<close>, \<open>parseInt(_, 10)\<close>
  and \<open>Number\<close>. White space is the ASCII part of JavaScript's \<open>\s\<close>.
\<close>

definition is_space :: "char \<Rightarrow> bool" where
  "is_space c = (c \<in> set [CHR '' '', CHR 0x09, CHR 0x0A, CHR 0x0B, CHR 0x0C, CHR 0x0D])"

definition is_digit :: "char \<Rightarrow> bool" where
  "is_digit c = (c \<in> set ''0123456789'')"

definition is_upper :: "char \<Rightarrow> bool" where
  "is_upper c = (c \<in> set ''ABCDEFGHIJKLMNOPQRSTUVWXYZ'')"

definition lower_char :: "char \<Rightarrow> char" where
  "lower_char c =
     (case map_of (zip ''ABCDEFGHIJKLMNOPQRSTUVWXYZ'' ''abcdefghijklmnopqrstuvwxyz'') c of
        Some l \<Rightarrow> l
      | None \<Rightarrow> c)"

definition toLowerCase :: "string \<Rightarrow> string" where
  "toLowerCase s = map lower_char s"

definition trim :: "string \<Rightarrow> string" where
  "trim s = rev (dropWhile is_space (rev (dropWhile is_space s)))"

definition startsWith :: "string \<Rightarrow> string \<Rightarrow> bool" where
  "startsWith s p = (take (length p) s = p)"

definition endsWith :: "string \<Rightarrow> string \<Rightarrow> bool" where
  "endsWith s p = (take (length p) (rev s) = rev p)"

definition has_digit :: "string \<Rightarrow> bool" where
  "has_digit s = list_ex is_digit s"

text \<open>
  \<open>s.split(/\s+/).filter(Boolean)\<close>: the maximal runs of characters that are not
  white space, in order. \<open>cur\<close> is the token being read, reversed.
\<close>

fun tokens :: "string \<Rightarrow> string \<Rightarrow> string list" where
  "tokens cur [] = (if cur = [] then [] else [rev cur])"
| "tokens cur (c # cs) =
     (if is_space c then (if cur = [] then tokens [] cs else rev cur # tokens [] cs)
      else tokens (c # cur) cs)"

definition split_ws :: "string \<Rightarrow> string list" where
  "split_ws s = tokens [] s"

text \<open>\<open>parts.join(' ')\<close>.\<close>

fun join_sp :: "string list \<Rightarrow> string" where
  "join_sp [] = []"
| "join_sp [x] = x"
| "join_sp (x # y # ys) = x @ '' '' @ join_sp (y # ys)"

text \<open>
  Decimal literals (\<open>StrDecimalLiteral\<close> of ECMAScript): digits, an optional fraction,
  an optional exponent; an optional sign; or \<open>Infinity\<close>. \<open>parse_number\<close> reads the
  longest literal at the start of the string and returns it with the rest.
\<close>

definition digit_val :: "char \<Rightarrow> nat" where
  "digit_val c = of_char c - 48"

definition digits_val :: "string \<Rightarrow> nat" where
  "digits_val ds = foldl (\<lambda>n c. 10 * n + digit_val c) 0 ds"

definition scale10 :: "real \<Rightarrow> int \<Rightarrow> real" where
  "scale10 m e = (if 0 \<le> e then m * 10 ^ nat e else m / 10 ^ nat (- e))"

definition parse_sign :: "string \<Rightarrow> bool \<times> string" where
  "parse_sign s =
     (case s of
        [] \<Rightarrow> (False, s)
      | c # r \<Rightarrow> if c = CHR ''-'' then (True, r) else if c = CHR ''+'' then (False, r) else (False, s))"

definition parse_exp :: "string \<Rightarrow> int \<times> string" where
  "parse_exp s =
     (case s of
        [] \<Rightarrow> (0, s)
      | c # r \<Rightarrow>
          if c = CHR ''e'' \<or> c = CHR ''E'' then
            (case parse_sign r of (neg, r1) \<Rightarrow>
               if takeWhile is_digit r1 = [] then (0, s)
               else ((if neg then - int (digits_val (takeWhile is_digit r1))
                      else int (digits_val (takeWhile is_digit r1))),
                     dropWhile is_digit r1))
          else (0, s))"

definition parse_fraction :: "string \<Rightarrow> string \<times> string" where
  "parse_fraction s =
     (case s of
        [] \<Rightarrow> ([], s)
      | c # r \<Rightarrow> if c = CHR ''.'' then (takeWhile is_digit r, dropWhile is_digit r) else ([], s))"

definition parse_unsigned :: "string \<Rightarrow> (real \<times> string) option" where
  "parse_unsigned s =
     (case parse_fraction (dropWhile is_digit s) of (fp, r2) \<Rightarrow>
        if takeWhile is_digit s = [] \<and> fp = [] then None
        else (case parse_exp r2 of (e, r3) \<Rightarrow>
          Some (scale10 (real (digits_val (takeWhile is_digit s))
                         + real (digits_val fp) / 10 ^ length fp) e, r3)))"

definition parse_number :: "string \<Rightarrow> (jsnum \<times> string) option" where
  "parse_number s =
     (case parse_sign s of (neg, r) \<Rightarrow>
        if startsWith r ''Infinity'' then Some (if neg then NegInf else PosInf, drop 8 r)
        else (case parse_unsigned r of
                None \<Rightarrow> None
              | Some (v, rest) \<Rightarrow> Some (Fin (if neg then - v else v), rest)))"

text \<open>\<open>parseFloat\<close>: leading white space is skipped, what follows the literal is ignored.\<close>

definition parseFloat :: "string \<Rightarrow> jsnum" where
  "parseFloat s = (case parse_number (dropWhile is_space s) of None \<Rightarrow> NaN | Some (v, _) \<Rightarrow> v)"

text \<open>
  The literals with a radix prefix that \<open>Number\<close> reads (and \<open>parseFloat\<close> does not):
  \<open>0x\<close>, \<open>0o\<close> or \<open>0b\<close>, in either case, followed by at least one digit of that radix
  and nothing else.
\<close>

definition radix_digit :: "char \<Rightarrow> nat option" where
  "radix_digit c =
     map_of (zip ''0123456789abcdefABCDEF''
               [0, 1, 2, 3, 4, 5, 6, 7, 8, 9, 10, 11, 12, 13, 14, 15, 10, 11, 12, 13, 14, 15]) c"

definition radix_value :: "nat \<Rightarrow> string \<Rightarrow> jsnum option" where
  "radix_value radix ds =
     (if ds \<noteq> [] \<and> list_all (\<lambda>c. case radix_digit c of Some v \<Rightarrow> v < radix | None \<Rightarrow> False) ds
      then Some (Fin (real (foldl (\<lambda>n c. radix * n + (case radix_digit c of Some v \<Rightarrow> v | None \<Rightarrow> 0)) 0 ds)))
      else None)"

definition radix_literal :: "string \<Rightarrow> jsnum option" where
  "radix_literal s =
     (case s of
        z # x # ds \<Rightarrow>
          if z \<noteq> CHR ''0'' then None
          else if x = CHR ''x'' \<or> x = CHR ''X'' then radix_value 16 ds
          else if x = CHR ''o'' \<or> x = CHR ''O'' then radix_value 8 ds
          else if x = CHR ''b'' \<or> x = CHR ''B'' then radix_value 2 ds
          else None
      | _ \<Rightarrow> None)"

text \<open>
  \<open>Number(s)\<close> on a string: the empty string is 0, otherwise the whole trimmed string
  must be one literal.
\<close>

definition jsNumber :: "string \<Rightarrow> jsnum" where
  "jsNumber s =
     (if trim s = [] then Fin 0
      else case radix_literal (trim s) of
          Some v \<Rightarrow> v
        | None \<Rightarrow> (case parse_number (trim s) of Some (v, []) \<Rightarrow> v | _ \<Rightarrow> NaN))"

text \<open>\<open>parseInt(s, 10)\<close>: \<open>None\<close> is NaN.\<close>

definition parseInt10 :: "string \<Rightarrow> int option" where
  "parseInt10 s =
     (case parse_sign (dropWhile is_space s) of (neg, r) \<Rightarrow>
        if takeWhile is_digit r = [] then None
        else Some (if neg then - int (digits_val (takeWhile is_digit r))
                   else int (digits_val (takeWhile is_digit r))))"

lemmas string_defs = is_space_def is_digit_def is_upper_def lower_char_def toLowerCase_def
  trim_def startsWith_def endsWith_def has_digit_def split_ws_def

lemmas number_defs = digit_val_def digits_val_def scale10_def parse_sign_def parse_exp_def
  parse_fraction_def parse_unsigned_def parse_number_def parseFloat_def radix_digit_def
  radix_value_def radix_literal_def jsNumber_def
  parseInt10_def

section \<open>Stylesheets\<close>

text \<open>
  \<open>document.styleSheets\<close> as the engine reads it. A style rule has its
  \<open>selectorText\<close> and its declarations in order (\<open>rule.style[i]\<close> with
  \<open>getPropertyValue\<close>); a \<open>@keyframes\<close> rule has its \<open>name\<close> and its keyframes
  (\<open>cssRules\<close>), each with \<open>keyText\<close> and declarations; any other rule is kept by its
  \<open>cssText\<close>. A sheet whose \<open>cssRules\<close> cannot be read (cross-origin: the source
  catches the exception and continues) is \<open>None\<close>.
\<close>

type_synonym style = "(string \<times> string) list"

record keyframe =
  keyText :: string
  kstyle :: style

datatype css_rule =
    StyleRule string style
  | KeyframesRule string "keyframe list"
  | OtherRule string

type_synonym sheet = "css_rule list option"

definition all_rules :: "sheet list \<Rightarrow> css_rule list" where
  "all_rules sheets = concat (map (\<lambda>s. case s of None \<Rightarrow> [] | Some rs \<Rightarrow> rs) sheets)"

text \<open>\<open>s.split(',')\<close>: the pieces between commas, empty pieces kept.\<close>

fun split_comma :: "string \<Rightarrow> string list" where
  "split_comma [] = [[]]"
| "split_comma (c # cs) =
     (if c = CHR '','' then [] # split_comma cs
      else (case split_comma cs of p # ps \<Rightarrow> (c # p) # ps | [] \<Rightarrow> [[c]]))"

text \<open>
  \<open>getCSSRule(selector)\<close>: the first style rule one of whose comma-separated
  selectors contains \<open>selector\<close> as a white-space separated token. (Every caller
  passes a non-empty selector, so the empty tokens of \<open>split(/\s+/)\<close> never match and
  are left out here.)
\<close>

fun rule_matches :: "string \<Rightarrow> css_rule \<Rightarrow> bool" where
  "rule_matches selector (StyleRule selectorText _) =
     (selectorText \<noteq> [] \<and>
      list_ex (\<lambda>sel. selector \<in> set (split_ws (trim sel))) (split_comma selectorText))"
| "rule_matches selector _ = False"

definition getCSSRule :: "sheet list \<Rightarrow> string \<Rightarrow> css_rule option" where
  "getCSSRule sheets selector = find (rule_matches selector) (all_rules sheets)"

text \<open>
  utils.js, \<open>gatherKeyFrame_MAP\<close>: the map is cleared and every \<open>@keyframes\<close> rule is
  stored under its name with \<open>Map.set\<close>, a later rule replacing an earlier one of the
  same name; \<open>getAnimationMap\<close> returns \<open>undefined\<close> for an empty name and otherwise
  \<open>AllKeyFramesMap.get(AnimName)\<close>: the key is compared as it is.
\<close>

definition gatherKeyFrame_MAP :: "sheet list \<Rightarrow> (string \<rightharpoonup> keyframe list)" where
  "gatherKeyFrame_MAP sheets =
     foldl (\<lambda>m r. case r of KeyframesRule n ks \<Rightarrow> m(n \<mapsto> ks) | _ \<Rightarrow> m) Map.empty (all_rules sheets)"

definition getAnimationMap :: "sheet list \<Rightarrow> string \<Rightarrow> keyframe list option" where
  "getAnimationMap sheets AnimName =
     (if AnimName = [] then None else gatherKeyFrame_MAP sheets AnimName)"

section \<open>artist.js: the control properties\<close>

text \<open>
  The duration token of both parsers: \<open>..ms\<close> is milliseconds, \<open>..s\<close> seconds,
  anything else milliseconds.
\<close>

definition parse_time :: "string \<Rightarrow> jsnum" where
  "parse_time timeToken =
     (if endsWith timeToken ''ms'' then parseFloat timeToken
      else if endsWith timeToken ''s'' then jmul (parseFloat timeToken) (Fin 1000)
      else parseFloat timeToken)"

record transition_cfg =
  t_duration :: jsnum
  t_timing :: string

definition parseTransitionCSS :: "string \<Rightarrow> transition_cfg option" where
  "parseTransitionCSS value =
     (if value = [] then None
      else if toLowerCase (trim value) = [] \<or> toLowerCase (trim value) = ''none'' then None
      else case split_ws (toLowerCase (trim value)) of
          [] \<Rightarrow> None
        | timeToken # parts \<Rightarrow>
            if \<not> isFinite (parse_time timeToken) \<or> le0 (parse_time timeToken) then None
            else Some \<lparr>t_duration = parse_time timeToken,
                       t_timing = (if join_sp parts = [] then ''linear'' else join_sp parts)\<rparr>)"

text \<open>The iteration count of an animation config: a number, or the string \<open>'infinite'\<close>.\<close>

datatype iteration = Count int | Infinite

record animation_cfg =
  a_name :: string
  a_duration :: jsnum
  a_iteration :: iteration
  a_timing :: string

definition is_infinite_token :: "string \<Rightarrow> bool" where
  "is_infinite_token t = (t = ''infinite'' \<or> t = ''infinity'')"

text \<open>\<open>parts.splice(parts.findIndex(p), 1)\<close>: the first element that satisfies \<open>p\<close> is removed.\<close>

fun remove_first :: "('a \<Rightarrow> bool) \<Rightarrow> 'a list \<Rightarrow> 'a list" where
  "remove_first p [] = []"
| "remove_first p (x # xs) = (if p x then xs else x # remove_first p xs)"

text \<open>The three steps of \<open>parseAnimationCSS\<close> after the name: duration, iteration, timing.\<close>

definition anim_duration :: "string list \<Rightarrow> jsnum \<times> string list" where
  "anim_duration parts =
     (case parts of
        [] \<Rightarrow> (Fin 1000, parts)
      | timeToken # rest \<Rightarrow>
          if has_digit timeToken then (parse_time timeToken, rest) else (Fin 1000, parts))"

definition anim_iteration :: "string list \<Rightarrow> iteration \<times> string list" where
  "anim_iteration parts =
     (if list_ex is_infinite_token parts then (Infinite, remove_first is_infinite_token parts)
      else if parts \<noteq> [] then
        (case parseInt10 (last parts) of
           Some maybeCount \<Rightarrow> if maybeCount > 0 then (Count maybeCount, butlast parts) else (Count 1, parts)
         | None \<Rightarrow> (Count 1, parts))
      else (Count 1, parts))"

definition parseAnimationCSS :: "string \<Rightarrow> animation_cfg option" where
  "parseAnimationCSS value =
     (if value = [] then None
      else if toLowerCase (trim value) = [] \<or> toLowerCase (trim value) = ''none'' then None
      else case split_ws (toLowerCase (trim value)) of
          [] \<Rightarrow> None
        | nameToken # parts \<Rightarrow>
            (case anim_duration parts of (durationMs, parts1) \<Rightarrow>
             case anim_iteration parts1 of (iterationCount, parts2) \<Rightarrow>
               Some \<lparr>a_name = nameToken, a_duration = durationMs, a_iteration = iterationCount,
                     a_timing = (if parts2 = [] then ''linear'' else join_sp parts2)\<rparr>))"

lemmas css_defs = all_rules_def getCSSRule_def gatherKeyFrame_MAP_def getAnimationMap_def
  parse_time_def parseTransitionCSS_def is_infinite_token_def anim_duration_def
  anim_iteration_def parseAnimationCSS_def

section \<open>artist.js: CSSValueTo3JSValue\<close>

text \<open>
  \<open>value.replace(/^['"]|['"]$/g, '')\<close>: one leading and one trailing quote are removed.
\<close>

definition is_quote :: "char \<Rightarrow> bool" where
  "is_quote c = (c = CHR 0x27 \<or> c = CHR 0x22)"

definition strip_quotes :: "string \<Rightarrow> string" where
  "strip_quotes s =
     (case (case s of [] \<Rightarrow> s | c # r \<Rightarrow> if is_quote c then r else s) of
        [] \<Rightarrow> []
      | s1 \<Rightarrow> if is_quote (last s1) then butlast s1 else s1)"

text \<open>\<open>/^\(.+\)$/.test(value)\<close>; the dot matches no line terminator.\<close>

definition is_paren_list :: "string \<Rightarrow> bool" where
  "is_paren_list value =
     (3 \<le> length value \<and> hd value = CHR ''('' \<and> last value = CHR '')''
      \<and> \<not> list_ex (\<lambda>c. c = CHR 0x0A \<or> c = CHR 0x0D) (butlast (tl value)))"

text \<open>
  \<open>CSSValueTo3JSValue(value, __object)\<close>. The two look-ups that leave the function are
  parameters: \<open>getAsset\<close> is \<open>getAsset(name)\<close> of utils.js, and \<open>getRef\<close> is the whole
  \<open>'#'\<close> case (the node of that id in the same cell, then the remaining path; \<open>Null\<close>
  or \<open>Undefined\<close> when it fails). A value that is a promise (an asset still loading) is
  represented by the value it resolves to.
\<close>

definition CSSValueTo3JSValue :: "(string \<Rightarrow> jsval) \<Rightarrow> (string \<Rightarrow> jsval) \<Rightarrow> string \<Rightarrow> jsval" where
  "CSSValueTo3JSValue getAsset getRef value =
     (if is_paren_list value
      then Arr (map (\<lambda>v. Num (parseFloat (trim v))) (split_comma (butlast (tl value))))
      else case parseFloat value of
          NaN \<Rightarrow>
            (case strip_quotes value of
               [] \<Rightarrow> Str []
             | c # p \<Rightarrow>
                 if c = CHR ''@'' then getAsset p
                 else if c = CHR ''#'' then getRef (c # p)
                 else Str (c # p))
        | n \<Rightarrow> Num n)"

section \<open>Train.js: keyframe sequences\<close>

text \<open>\<open>parseKeyframeTime(keyText, totalDuration)\<close>, for a finite total duration.\<close>

definition parseKeyframeTime :: "string \<Rightarrow> real \<Rightarrow> real" where
  "parseKeyframeTime kt totalDuration =
     (if kt = [] then 0
      else if toLowerCase (trim kt) = ''from'' then 0
      else if toLowerCase (trim kt) = ''to'' then totalDuration
      else if endsWith (toLowerCase (trim kt)) ''%'' then
        (case parseFloat (toLowerCase (trim kt)) of Fin v \<Rightarrow> (v / 100) * totalDuration | _ \<Rightarrow> 0)
      else if endsWith (toLowerCase (trim kt)) ''ms'' then
        (case parseFloat (toLowerCase (trim kt)) of Fin v \<Rightarrow> v | _ \<Rightarrow> 0)
      else (case jsNumber (toLowerCase (trim kt)) of Fin n \<Rightarrow> n | _ \<Rightarrow> 0))"

text \<open>
  \<open>fromProps\<close> and \<open>toProps\<close> are plain objects (\<open>{}\<close>), filled by
  \<open>props[propName.slice(2)] = CSSValueTo3JSValue(raw, object)\<close> for every declared
  property that starts with \<open>--\<close>. The own properties are kept in insertion order: an
  object's keys are unique, and an assignment to an existing key keeps its place.
  While the prototype of the object is \<open>Object.prototype\<close>, an assignment to the key
  \<open>__proto__\<close> creates no own property: it replaces the prototype when the value is an
  object or \<open>null\<close>, and does nothing otherwise. \<open>conv\<close> is
  \<open>CSSValueTo3JSValue(_, object)\<close>.
\<close>

fun obj_set :: "'k \<Rightarrow> 'v \<Rightarrow> ('k \<times> 'v) list \<Rightarrow> ('k \<times> 'v) list" where
  "obj_set k v [] = [(k, v)]"
| "obj_set k v ((k', v') # ps) = (if k = k' then (k, v) # ps else (k', v') # obj_set k v ps)"

datatype prototype = ObjectPrototype | NullPrototype | OtherPrototype

fun is_object :: "jsval \<Rightarrow> bool" where
  "is_object (Arr _) = True"
| "is_object (Ref _) = True"
| "is_object (Promise _) = True"
| "is_object _ = False"

definition assign_prop ::
  "string \<Rightarrow> jsval \<Rightarrow> (string \<times> jsval) list \<times> prototype \<Rightarrow> (string \<times> jsval) list \<times> prototype" where
  "assign_prop k v props =
     (if k = ''__proto__'' \<and> snd props = ObjectPrototype
      then (fst props,
            if is_object v then OtherPrototype else if v = Null then NullPrototype
            else ObjectPrototype)
      else (obj_set k v (fst props), snd props))"

definition custom_props :: "(string \<Rightarrow> jsval) \<Rightarrow> style \<Rightarrow> (string \<times> jsval) list \<times> prototype" where
  "custom_props conv st =
     foldl (\<lambda>props (propName, raw).
              if startsWith propName ''--'' then assign_prop (drop 2 propName) (conv raw) props
              else props)
       ([], ObjectPrototype) st"

text \<open>
  The properties every plain object inherits from \<open>Object.prototype\<close>: eleven
  functions, and the accessor \<open>__proto__\<close>. The value read for the \<open>n\<close>-th name is an
  object (a function; for \<open>__proto__\<close> the prototype itself), \<open>Ref (1000 + n)\<close>.
\<close>

definition object_prototype_names :: "string list" where
  "object_prototype_names =
     [''constructor'', ''__defineGetter__'', ''__defineSetter__'', ''hasOwnProperty'',
      ''__lookupGetter__'', ''__lookupSetter__'', ''isPrototypeOf'', ''propertyIsEnumerable'',
      ''toString'', ''valueOf'', ''__proto__'', ''toLocaleString'']"

text \<open>
  \<open>Object.keys(props)\<close>: the own keys that are array indices (the decimal text, with
  no leading zero, of an integer below \<open>2^32 - 1\<close>) in ascending numeric order, then
  the other keys in insertion order.
\<close>

definition is_array_index :: "string \<Rightarrow> bool" where
  "is_array_index k =
     (k \<noteq> [] \<and> list_all is_digit k \<and> (k = ''0'' \<or> hd k \<noteq> CHR ''0'')
      \<and> digits_val k < 4294967295)"

definition object_keys :: "(string \<times> jsval) list \<Rightarrow> string list" where
  "object_keys ps =
     sort_key digits_val (filter is_array_index (map fst ps))
     @ filter (\<lambda>k. \<not> is_array_index k) (map fst ps)"

text \<open>
  \<open>k in toProps\<close> and \<open>toProps[k]\<close>, for an object whose prototype is
  \<open>Object.prototype\<close> or \<open>null\<close>: an own property, or else an inherited one.
\<close>

definition has_property :: "prototype \<Rightarrow> (string \<times> jsval) list \<Rightarrow> string \<Rightarrow> bool" where
  "has_property pr ps k =
     (map_of ps k \<noteq> None \<or> (pr = ObjectPrototype \<and> k \<in> set object_prototype_names))"

definition object_prototype :: "(string \<times> jsval) list" where
  "object_prototype = zip object_prototype_names (map (\<lambda>n. Ref (1000 + n)) [0 ..< 12])"

definition get_property :: "prototype \<Rightarrow> (string \<times> jsval) list \<Rightarrow> string \<Rightarrow> jsval" where
  "get_property pr ps k =
     (case map_of ps k of
        Some v \<Rightarrow> v
      | None \<Rightarrow>
          if pr = ObjectPrototype
          then (case map_of object_prototype k of Some v \<Rightarrow> v | None \<Rightarrow> Undefined)
          else Undefined)"

text \<open>
  One pair of consecutive keyframes: \<open>keys = Object.keys(fromProps).filter(k => k in
  toProps)\<close>, each with \<open>fromProps[key]\<close> and \<open>toProps[key]\<close>. The result is \<open>None\<close>
  when a frame has replaced the prototype of its table by an object, whose properties
  the model does not know.
\<close>

definition pair_anims ::
  "(string \<Rightarrow> jsval) \<Rightarrow> keyframe \<Rightarrow> keyframe \<Rightarrow> (string \<times> jsval \<times> jsval) list option" where
  "pair_anims conv fromRule toRule =
     (case (custom_props conv (kstyle fromRule), custom_props conv (kstyle toRule)) of
        ((fromProps, fromProto), (toProps, toProto)) \<Rightarrow>
          if fromProto = OtherPrototype \<or> toProto = OtherPrototype then None
          else Some
            (map (\<lambda>k. (k, get_property fromProto fromProps k, get_property toProto toProps k))
               (filter (has_property toProto toProps) (object_keys fromProps))))"

text \<open>
  What one pass of \<open>runOnce\<close> animates: for each \<open>i\<close> the pair \<open>rules[i]\<close>,
  \<open>rules[i + 1]\<close>; the pair is skipped (\<open>continue\<close>) when \<open>segmentMs <= 0\<close> and when it
  has no common key.
\<close>

record segment =
  s_pair :: nat
  s_ms :: real
  s_anims :: "(string \<times> jsval \<times> jsval) list"

definition pair_segment :: "(string \<Rightarrow> jsval) \<Rightarrow> real \<Rightarrow> keyframe list \<Rightarrow> nat \<Rightarrow> segment list option" where
  "pair_segment conv duration rules i =
     (let segmentMs = parseKeyframeTime (keyText (rules ! (i + 1))) duration
                      - parseKeyframeTime (keyText (rules ! i)) duration
      in if segmentMs \<le> 0 then Some []
         else (case pair_anims conv (rules ! i) (rules ! (i + 1)) of
                 None \<Rightarrow> None
               | Some anims \<Rightarrow>
                   if anims = [] then Some []
                   else Some [\<lparr>s_pair = i, s_ms = segmentMs, s_anims = anims\<rparr>]))"

fun concat_options :: "'a list option list \<Rightarrow> 'a list option" where
  "concat_options [] = Some []"
| "concat_options (None # rest) = None"
| "concat_options (Some xs # rest) =
     (case concat_options rest of None \<Rightarrow> None | Some ys \<Rightarrow> Some (xs @ ys))"

definition runOnce_segments :: "(string \<Rightarrow> jsval) \<Rightarrow> real \<Rightarrow> keyframe list \<Rightarrow> segment list option" where
  "runOnce_segments conv duration rules =
     concat_options (map (pair_segment conv duration rules) [0 ..< length rules - 1])"

text \<open>
  \<open>KeyFrameAnimationLerp(object, animationObj)\<close> up to its loop: it returns at once
  when the name is empty or the duration is falsy (\<open>0\<close> or NaN); it logs an error and
  returns when \<open>getAnimationMap\<close> finds no rule of that name; otherwise it sorts the
  keyframes by resolved time (\<open>Array.prototype.sort\<close> is stable) and runs \<open>runOnce\<close>
  \<open>total\<close> times, or for ever (\<open>None\<close>). With an infinite duration the comparator
  returns NaN and the order of the sort is implementation-defined: \<open>OutOfModel\<close>
  (\<open>parseAnimationCSS\<close> never produces one); so is a sequence one of whose frames
  replaces the prototype of its table by an object.
\<close>

datatype kf_plan = Returned | NotFound | OutOfModel | Plan "segment list" "nat option"

fun iteration_total :: "iteration \<Rightarrow> nat option" where
  "iteration_total Infinite = None"
| "iteration_total (Count c) = Some (if c = 0 then 1 else nat c)"

definition sorted_rules :: "real \<Rightarrow> keyframe list \<Rightarrow> keyframe list" where
  "sorted_rules duration cssRules = sort_key (\<lambda>r. parseKeyframeTime (keyText r) duration) cssRules"

definition KeyFrameAnimationLerp :: "(string \<Rightarrow> jsval) \<Rightarrow> sheet list \<Rightarrow> animation_cfg \<Rightarrow> kf_plan" where
  "KeyFrameAnimationLerp conv sheets animationObj =
     (if a_name animationObj = [] then Returned
      else case a_duration animationObj of
          NaN \<Rightarrow> Returned
        | Fin d \<Rightarrow>
            if d = 0 then Returned
            else (case getAnimationMap sheets (a_name animationObj) of
                    None \<Rightarrow> NotFound
                  | Some cssRules \<Rightarrow>
                      (case runOnce_segments conv d (sorted_rules d cssRules) of
                         None \<Rightarrow> OutOfModel
                       | Some segs \<Rightarrow> Plan segs (iteration_total (a_iteration animationObj))))
        | _ \<Rightarrow>
            (case getAnimationMap sheets (a_name animationObj) of
               None \<Rightarrow> NotFound
             | Some cssRules \<Rightarrow> OutOfModel))"

text \<open>
  The run of the segments over the animation frames. The events are: \<open>Launched i k\<close>,
  the call of \<open>animateLerp\<close> for key \<open>k\<close> of pair \<open>i\<close>; \<open>Exchange i k v\<close>, its update
  callback (\<open>exchange_rule(parent, finalKey, v)\<close> on the object); \<open>Settled i k\<close>, its
  complete callback, which resolves the key's promise. \<open>performance.now()\<close> inside a
  turn reads as the timestamp of the frame the turn belongs to.
\<close>

datatype kf_event = Launched nat string | Exchange nat string jsval | Settled nat string

fun kf_of :: "nat \<Rightarrow> string \<Rightarrow> cb_event \<Rightarrow> kf_event" where
  "kf_of i k (OnUpdate v _) = Exchange i k v"
| "kf_of i k (OnComplete _) = Settled i k"

fun pair_of :: "kf_event \<Rightarrow> nat" where
  "pair_of (Launched i _) = i"
| "pair_of (Exchange i _ _) = i"
| "pair_of (Settled i _) = i"

fun is_launch :: "kf_event \<Rightarrow> bool" where
  "is_launch (Launched _ _) = True"
| "is_launch _ = False"

text \<open>
  \<open>resolveValue\<close> followed by \<open>Promise.all\<close>: a value that is a promise is replaced by
  the value it is fulfilled with, which \<open>settle\<close> gives.
\<close>

definition resolveValue :: "(nat \<Rightarrow> jsval) \<Rightarrow> jsval \<Rightarrow> jsval" where
  "resolveValue settle v = (case v of Promise p \<Rightarrow> settle p | _ \<Rightarrow> v)"

text \<open>
  \<open>keys.map(key => ...)\<close>: one \<open>animateLerp\<close> per key, on the resolved values. The
  promises among the values are taken to be fulfilled when the pair starts, so that
  all the calls happen in the same turn (the source calls \<open>animateLerp\<close> for a key
  once both its values are resolved, and gives up the sequence when one is rejected).
  The result is the events of that turn and the animations that requested a frame.
\<close>

fun launch :: "(nat \<Rightarrow> jsval) \<Rightarrow> real \<Rightarrow> string \<Rightarrow> nat \<Rightarrow> real \<Rightarrow> (string \<times> jsval \<times> jsval) list
    \<Rightarrow> kf_event list \<times> (string \<times> running) list" where
  "launch settle now timing i ms [] = ([], [])"
| "launch settle now timing i ms ((k, fromVal, toVal) # rest) =
     (case launch settle now timing i ms rest of (es, act) \<Rightarrow>
        (case animateLerp now (resolveValue settle fromVal) (resolveValue settle toVal)
                (Num (Fin ms)) True True timing of
           Instant cbs \<Rightarrow> (Launched i k # map (kf_of i k) cbs @ es, act)
         | Scheduled r \<Rightarrow> (Launched i k # es, (k, r) # act)))"

text \<open>One animation frame: every scheduled \<open>step\<close> runs, in the order of registration.\<close>

fun tick :: "(string \<Rightarrow> real \<Rightarrow> jsnum) \<Rightarrow> nat \<Rightarrow> real \<Rightarrow> (string \<times> running) list
    \<Rightarrow> kf_event list \<times> (string \<times> running) list" where
  "tick eqn i now [] = ([], [])"
| "tick eqn i now ((k, r) # rest) =
     (case step eqn r now of (cbs, again) \<Rightarrow>
      case tick eqn i now rest of (es, act) \<Rightarrow>
        (map (kf_of i k) cbs @ es, if again then (k, r) # act else act))"

text \<open>
  \<open>await Promise.all(...)\<close>: frames pass until no animation of the pair is scheduled
  any more. The result is \<open>None\<close> while the promise is still pending when the frames
  run out, and otherwise the time and the frames that remain.
\<close>

fun run_active :: "(string \<Rightarrow> real \<Rightarrow> jsnum) \<Rightarrow> nat \<Rightarrow> (string \<times> running) list \<Rightarrow> real \<Rightarrow> real list
    \<Rightarrow> kf_event list \<times> (real \<times> real list) option" where
  "run_active eqn i [] now frames = ([], Some (now, frames))"
| "run_active eqn i (a # act) now [] = ([], None)"
| "run_active eqn i (a # act) now (f # fs) =
     (case tick eqn i f (a # act) of (es, act') \<Rightarrow>
      case run_active eqn i act' f fs of (es', res) \<Rightarrow> (es @ es', res))"

fun run_segments :: "(nat \<Rightarrow> jsval) \<Rightarrow> (string \<Rightarrow> real \<Rightarrow> jsnum) \<Rightarrow> string \<Rightarrow> segment list \<Rightarrow> real
    \<Rightarrow> real list \<Rightarrow> kf_event list \<times> (real \<times> real list) option" where
  "run_segments settle eqn timing [] now frames = ([], Some (now, frames))"
| "run_segments settle eqn timing (s # ss) now frames =
     (case launch settle now timing (s_pair s) (s_ms s) (s_anims s) of (es0, act) \<Rightarrow>
      case run_active eqn (s_pair s) act now frames of
        (es1, None) \<Rightarrow> (es0 @ es1, None)
      | (es1, Some (now', frames')) \<Rightarrow>
          (case run_segments settle eqn timing ss now' frames' of (es2, res) \<Rightarrow>
             (es0 @ es1 @ es2, res)))"

text \<open>\<open>for (i = 0; i < total; i++) await runOnce()\<close>.\<close>

fun run_times :: "nat \<Rightarrow> (nat \<Rightarrow> jsval) \<Rightarrow> (string \<Rightarrow> real \<Rightarrow> jsnum) \<Rightarrow> string \<Rightarrow> segment list \<Rightarrow> real
    \<Rightarrow> real list \<Rightarrow> kf_event list \<times> (real \<times> real list) option" where
  "run_times 0 settle eqn timing segs now frames = ([], Some (now, frames))"
| "run_times (Suc n) settle eqn timing segs now frames =
     (case run_segments settle eqn timing segs now frames of
        (es, None) \<Rightarrow> (es, None)
      | (es, Some (now', frames')) \<Rightarrow>
          (case run_times n settle eqn timing segs now' frames' of (es', res) \<Rightarrow> (es @ es', res)))"

text \<open>
  An example: the sequence \<open>pulse\<close>, three keyframes declared out of order; the
  sequence \<open>twin\<close>, two keyframes at the same time; and the sequence \<open>grow\<close>, whose
  first keyframe declares a property, \<open>--constructor\<close>, that the second does not
  declare. Values are converted with no asset and no node to refer to, the easing is
  the identity (\<open>linear\<close>), and no value is a promise.
\<close>

definition example_conv :: "string \<Rightarrow> jsval" where
  "example_conv = CSSValueTo3JSValue (\<lambda>n. Undefined) (\<lambda>p. Undefined)"

definition example_settle :: "nat \<Rightarrow> jsval" where
  "example_settle p = Null"

definition example_eqn :: "string \<Rightarrow> real \<Rightarrow> jsnum" where
  "example_eqn timing t = Fin t"

definition example_sheets :: "sheet list" where
  "example_sheets =
     [Some [KeyframesRule ''pulse''
              [\<lparr>keyText = ''to'', kstyle = [(''--x'', ''10''), (''--y'', ''5'')]\<rparr>,
               \<lparr>keyText = ''from'', kstyle = [(''--x'', ''0''), (''--z'', ''1'')]\<rparr>,
               \<lparr>keyText = ''50%'', kstyle = [(''opacity'', ''1''), (''--x'', ''4''), (''--y'', ''1'')]\<rparr>],
            KeyframesRule ''twin''
              [\<lparr>keyText = ''from'', kstyle = [(''--x'', ''0'')]\<rparr>,
               \<lparr>keyText = ''0%'', kstyle = [(''--x'', ''5'')]\<rparr>],
            KeyframesRule ''grow''
              [\<lparr>keyText = ''from'', kstyle = [(''--constructor'', ''1''), (''--x'', ''0'')]\<rparr>,
               \<lparr>keyText = ''to'', kstyle = [(''--x'', ''10'')]\<rparr>]]]"

definition example_animation :: "string \<Rightarrow> animation_cfg" where
  "example_animation name =
     \<lparr>a_name = name, a_duration = Fin 1000, a_iteration = Count 1, a_timing = ''linear''\<rparr>"

lemmas keyframe_defs = is_quote_def strip_quotes_def is_paren_list_def CSSValueTo3JSValue_def
  parseKeyframeTime_def assign_prop_def custom_props_def object_prototype_names_def
  is_array_index_def object_keys_def has_property_def object_prototype_def get_property_def
  pair_anims_def
  pair_segment_def runOnce_segments_def resolveValue_def
  sorted_rules_def KeyFrameAnimationLerp_def

section \<open>artist.js: assigning a value\<close>

text \<open>
  The slot \<open>parent[key]\<close> a property path ends in, as \<open>exchange_rule\<close> and
  \<open>assignValue\<close> probe it: plain data (\<open>Field\<close>: a number, a string, a boolean, an
  array, \<open>null\<close>, \<open>undefined\<close>, none of which has a \<open>toArray\<close> or a \<open>set\<close> method); an
  object (a vector, a colour, ...); or a function. An object or function is
  identified by a number and comes with the result of its \<open>toArray()\<close>, if it has that
  method, and with whether it has a \<open>set\<close> method.
\<close>

datatype slot = Field jsval | Object nat "jsval option" bool | Function nat "jsval option" bool

text \<open>
  \<open>currentValue = currentRaw && typeof currentRaw.toArray === 'function' ?
  currentRaw.toArray() : currentRaw\<close>.
\<close>

fun currentValue :: "slot \<Rightarrow> jsval" where
  "currentValue (Field v) = v"
| "currentValue (Object ob (Some r) _) = r"
| "currentValue (Object ob None _) = Ref ob"
| "currentValue (Function ob (Some r) _) = r"
| "currentValue (Function ob None _) = Ref ob"

text \<open>
  What \<open>exchange_rule\<close> does to a slot: \<open>target.set(...)\<close> when the target has a \<open>set\<close>
  method, \<open>target(...)\<close> when it is a function, \<open>parent[key] = value\<close> otherwise; an
  array is spread into the arguments.
\<close>

datatype assignment = SetCall "jsval list" | FnCall "jsval list" | Store jsval

fun arguments :: "jsval \<Rightarrow> jsval list" where
  "arguments (Arr xs) = xs"
| "arguments v = [v]"

fun operation :: "slot \<Rightarrow> jsval \<Rightarrow> assignment" where
  "operation (Object ob r True) v = SetCall (arguments v)"
| "operation (Function ob r True) v = SetCall (arguments v)"
| "operation (Function ob r False) v = FnCall (arguments v)"
| "operation _ v = Store v"

text \<open>
  The place \<open>deep_searchParms\<close> returns, a parent and a key: whether the parent is
  truthy (it is an object, or a primitive such as a number or a string when the path
  runs through one); the slot \<open>parent[key]\<close>; and whether an operation on the slot
  throws (a setter or a function of the library that fails, an assignment to a
  property of a primitive or to a read-only property).
\<close>

record place =
  p_parent :: bool
  p_slot :: slot
  p_throws :: "assignment \<Rightarrow> bool"

text \<open>An ordinary place: a data property, holding \<open>v\<close>, of an object.\<close>

definition plain_place :: "jsval \<Rightarrow> place" where
  "plain_place v = \<lparr>p_parent = True, p_slot = Field v, p_throws = (\<lambda>a. False)\<rparr>"

text \<open>
  \<open>exchange_rule(parent, key, value)\<close>: nothing when the parent is falsy
  (\<open>if (!parent) return\<close>); otherwise the operation, inside \<open>try\<close>: an error it throws
  is caught and logged (\<open>console.warn\<close>).
\<close>

datatype exchange = NoParent | Done assignment | Caught assignment

definition exchange_rule :: "place \<Rightarrow> jsval \<Rightarrow> exchange" where
  "exchange_rule pl v =
     (if \<not> p_parent pl then NoParent
      else if p_throws pl (operation (p_slot pl) v) then Caught (operation (p_slot pl) v)
      else Done (operation (p_slot pl) v))"

text \<open>
  \<open>assignValue(resolvedValue)\<close> inside \<open>_apply_rule\<close>: nothing for \<open>undefined\<close>; a call
  of \<open>animateLerp\<close> from the current value when \<open>isAnimatable\<close>; \<open>exchange_rule\<close>
  otherwise. \<open>transition\<close> is \<open>object.transition\<close> and \<open>pl\<close> the place as they are
  when the function runs.
\<close>

datatype outcome = Skipped | Assigned exchange | Animated animation

definition assignValue :: "real \<Rightarrow> transition_cfg option \<Rightarrow> place \<Rightarrow> jsval \<Rightarrow> outcome" where
  "assignValue now transition pl resolvedValue =
     (if resolvedValue = Undefined then Skipped
      else case transition of
          None \<Rightarrow> Assigned (exchange_rule pl resolvedValue)
        | Some cfg \<Rightarrow>
            if gt0 (t_duration cfg) \<and> isAnimatable (currentValue (p_slot pl))
               \<and> isAnimatable resolvedValue
            then Animated (animateLerp now (currentValue (p_slot pl)) resolvedValue
                             (Num (t_duration cfg)) True True (t_timing cfg))
            else Assigned (exchange_rule pl resolvedValue))"



section \<open>artist.js: painting a rule\<close>

text \<open>
  \<open>THREE.Layers\<close> (the graphics library): a 32-bit mask with \<open>enable\<close>, \<open>disable\<close>,
  \<open>set\<close> and \<open>test\<close>. A new object is on layer 0 (mask 1).
\<close>

definition layers_enable :: "32 word \<Rightarrow> nat \<Rightarrow> 32 word" where
  "layers_enable m channel = m OR push_bit channel 1"

definition layers_disable :: "32 word \<Rightarrow> nat \<Rightarrow> 32 word" where
  "layers_disable m channel = m AND NOT (push_bit channel 1)"

definition layers_set :: "nat \<Rightarrow> 32 word" where
  "layers_set channel = push_bit channel 1"

definition layers_test :: "32 word \<Rightarrow> 32 word \<Rightarrow> bool" where
  "layers_test m other = (m AND other \<noteq> 0)"

text \<open>
  A scene node as \<open>_apply_rule\<close> sees it: \<open>userData.classList\<close>, \<open>name\<close>,
  \<open>userData.domId\<close> (empty when there is none), the names of the attributes of
  \<open>userData.domEl\<close> (none when there is no element), \<open>layers.mask\<close>, \<open>transition\<close>,
  \<open>animation\<close> and \<open>userData._animationRunning\<close>.
\<close>

record node =
  n_classList :: "string list"
  n_name :: string
  n_domId :: string
  n_attrs :: "string list"
  n_layers :: "32 word"
  n_transition :: "transition_cfg option"
  n_animation :: "animation_cfg option"
  n_animationRunning :: bool

definition getObjectClassSelectors :: "node \<Rightarrow> string list" where
  "getObjectClassSelectors object =
     (if n_classList object \<noteq> [] then n_classList object
      else if n_name object \<noteq> [] then [n_name object] else [])"

definition hasClassPseudoRule :: "sheet list \<Rightarrow> node \<Rightarrow> string \<Rightarrow> bool" where
  "hasClassPseudoRule sheets object pseudo =
     list_ex (\<lambda>cls. getCSSRule sheets (''.'' @ cls @ pseudo) \<noteq> None) (getObjectClassSelectors object)"

text \<open>The condition under which \<open>_apply_rule\<close> calls \<open>object.layers.enable(3)\<close>.\<close>

definition picking_condition :: "sheet list \<Rightarrow> node \<Rightarrow> bool" where
  "picking_condition sheets object =
     (''onclick'' \<in> set (n_attrs object)
      \<or> ''onmouseover'' \<in> set (n_attrs object)
      \<or> ''ondblclick'' \<in> set (n_attrs object)
      \<or> ''onmousedown'' \<in> set (n_attrs object)
      \<or> ''onmouseup'' \<in> set (n_attrs object)
      \<or> ''oncontextmenu'' \<in> set (n_attrs object)
      \<or> hasClassPseudoRule sheets object '':hover''
      \<or> hasClassPseudoRule sheets object '':focus''
      \<or> (n_domId object \<noteq> [] \<and> getCSSRule sheets (''#'' @ n_domId object @ '':focus'') \<noteq> None)
      \<or> (n_domId object \<noteq> [] \<and> getCSSRule sheets (''#'' @ n_domId object @ '':hover'') \<noteq> None))"

definition set_picking_layer :: "sheet list \<Rightarrow> node \<Rightarrow> node" where
  "set_picking_layer sheets object =
     (if picking_condition sheets object
      then object\<lparr>n_layers := layers_enable (n_layers object) 3\<rparr>
      else object\<lparr>n_layers := layers_disable (n_layers object) 3\<rparr>)"

text \<open>
  The loop over \<open>rule.style\<close>. A property that does not start with \<open>--\<close> is skipped;
  \<open>--transition\<close> and \<open>--animation\<close> store the parsed config on the object; any other
  property is converted and assigned. \<open>places\<close> is \<open>deep_searchParms(object, path)\<close>,
  taken to return a place for every path; \<open>conv\<close> is \<open>CSSValueTo3JSValue(_, object)\<close>.
  A value that is not a promise goes through \<open>assignValue\<close> at once, with the
  transition the object has at that point of the loop; for a promise,
  \<open>parsed.then(assignValue)\<close> is registered. The result lists, per declared property,
  what happened.
\<close>

datatype painted = Ran outcome | Deferred nat

fun apply_props :: "real \<Rightarrow> (string \<Rightarrow> jsval) \<Rightarrow> (string \<Rightarrow> place) \<Rightarrow> style \<Rightarrow> node
    \<Rightarrow> node \<times> (string \<times> painted) list" where
  "apply_props now conv places [] object = (object, [])"
| "apply_props now conv places ((rawProp, v) # rest) object =
     (if \<not> startsWith rawProp ''--'' then apply_props now conv places rest object
      else if rawProp = ''--transition''
        then apply_props now conv places rest (object\<lparr>n_transition := parseTransitionCSS (trim v)\<rparr>)
      else if rawProp = ''--animation''
        then apply_props now conv places rest (object\<lparr>n_animation := parseAnimationCSS (trim v)\<rparr>)
      else (case apply_props now conv places rest object of (object', outs) \<Rightarrow>
              (object',
               (drop 2 rawProp,
                (case conv (trim v) of
                   Promise p \<Rightarrow> Deferred p
                 | parsed \<Rightarrow> Ran (assignValue now (n_transition object) (places (drop 2 rawProp)) parsed)))
               # outs)))"

text \<open>
  The continuation of a deferred property: when its promise is fulfilled with \<open>v\<close>,
  after the rule has been applied, \<open>assignValue(v)\<close> runs with the transition the
  object has by then and the place as it is by then. (When the promise is rejected,
  the error is logged and nothing is assigned.)
\<close>

definition promise_fulfilled :: "real \<Rightarrow> node \<Rightarrow> place \<Rightarrow> jsval \<Rightarrow> outcome" where
  "promise_fulfilled now object pl v = assignValue now (n_transition object) pl v"

text \<open>
  \<open>_apply_rule(rule, object)\<close> for a rule that has a \<open>style\<close>: the picking layer, the
  declared properties, then the keyframe run, started only when the object has an
  animation config and no run is marked as in progress. The third component is the
  run that was started, if any.
\<close>

definition apply_rule :: "sheet list \<Rightarrow> real \<Rightarrow> (string \<Rightarrow> jsval) \<Rightarrow> (string \<Rightarrow> place) \<Rightarrow> style \<Rightarrow> node
    \<Rightarrow> node \<times> (string \<times> painted) list \<times> kf_plan option" where
  "apply_rule sheets now conv places st object =
     (case apply_props now conv places st (set_picking_layer sheets object) of (object', outs) \<Rightarrow>
        (case n_animation object' of
           None \<Rightarrow> (object', outs, None)
         | Some cfg \<Rightarrow>
             if n_animationRunning object' then (object', outs, None)
             else (object'\<lparr>n_animationRunning := True\<rparr>, outs,
                   Some (KeyFrameAnimationLerp conv sheets cfg))))"

section \<open>NoScope.js: the ray caster\<close>

text \<open>
  \<open>raycaster.layers.set(3)\<close>, and \<open>THREE.Raycaster.intersectObjects\<close> (the graphics
  library): an object is tested against the ray only if its layers pass
  \<open>layers.test(raycaster.layers)\<close>; the hits are sorted by distance. \<open>distance\<close> is the
  geometry: the distance at which the ray meets an object, if it does.
\<close>

definition raycaster_layers :: "32 word" where
  "raycaster_layers = layers_set 3"

definition intersectObjects :: "('o \<Rightarrow> 32 word) \<Rightarrow> ('o \<Rightarrow> real option) \<Rightarrow> 'o list \<Rightarrow> ('o \<times> real) list" where
  "intersectObjects layers_of distance objects =
     sort_key snd
       (concat (map (\<lambda>ob. if layers_test (layers_of ob) raycaster_layers
                           then (case distance ob of None \<Rightarrow> [] | Some d \<Rightarrow> [(ob, d)])
                           else [])
                    objects))"

text \<open>
  The handler properties of a source element that NoScope.js calls with a synthetic
  event.
\<close>

definition dispatched_handlers :: "string list" where
  "dispatched_handlers =
     [''onclick'', ''onmouseleave'', ''onmouseenter'', ''onmouseover'', ''onmousedown'',
      ''onmouseup'', ''ondblclick'', ''oncontextmenu'']"

lemmas paint_defs = plain_place_def exchange_rule_def assignValue_def promise_fulfilled_def layers_enable_def layers_disable_def layers_set_def
  layers_test_def getObjectClassSelectors_def hasClassPseudoRule_def picking_condition_def
  set_picking_layer_def apply_rule_def raycaster_layers_def intersectObjects_def
  dispatched_handlers_def

section \<open>utils.js: the asset cache\<close>

text \<open>
  \<open>assetMap\<close> maps a name to a value or to the promise \<open>pending\<close> that
  \<open>storeAssetValue\<close> derived from a load. Every call of \<open>loadAsset(url)\<close> returns a new
  promise; the loads issued so far are listed in order, each with the key it is stored
  under and its url, and a promise is identified by the position of its load.
\<close>

datatype asset_entry = Value jsval | Pending nat

record assets =
  assetMap :: "string \<rightharpoonup> asset_entry"
  loads :: "(string \<times> string) list"

text \<open>\<open>storeAssetValue(key, value)\<close> for a value that is not a promise.\<close>

definition storeAssetValue :: "string \<Rightarrow> jsval \<Rightarrow> assets \<Rightarrow> assets" where
  "storeAssetValue key v st = st\<lparr>assetMap := (assetMap st)(key \<mapsto> Value v)\<rparr>"

text \<open>
  \<open>storeAssetValue(key, loadAsset(url))\<close>: the load is issued, and the map holds the
  pending promise.
\<close>

definition storeAssetLoad :: "string \<Rightarrow> string \<Rightarrow> assets \<Rightarrow> assets" where
  "storeAssetLoad key url st =
     st\<lparr>assetMap := (assetMap st)(key \<mapsto> Pending (length (loads st))),
        loads := loads st @ [(key, url)]\<rparr>"

text \<open>
  The two handlers \<open>storeAssetValue\<close> attaches to the promise of load \<open>i\<close>: on success
  \<open>assetMap.set(key, resolved)\<close>, on failure \<open>assetMap.delete(key)\<close>. Only a load that
  was issued can settle.
\<close>

definition load_resolved :: "nat \<Rightarrow> jsval \<Rightarrow> assets \<Rightarrow> assets" where
  "load_resolved i v st =
     (if i < length (loads st) then st\<lparr>assetMap := (assetMap st)(fst (loads st ! i) \<mapsto> Value v)\<rparr>
      else st)"

definition load_failed :: "nat \<Rightarrow> assets \<Rightarrow> assets" where
  "load_failed i st =
     (if i < length (loads st) then st\<lparr>assetMap := (assetMap st)(fst (loads st ! i) := None)\<rparr>
      else st)"

text \<open>
  \<open>gatherAssetRules\<close>: for every asset rule of the stylesheets, in order, the asset is
  loaded unless the map has its name. \<open>decls\<close> are the (name, url) pairs the function
  reads from the rules' text.
\<close>

definition gatherAssetRules :: "(string \<times> string) list \<Rightarrow> assets \<Rightarrow> assets" where
  "gatherAssetRules decls st =
     foldl (\<lambda>s (name, url). if assetMap s name = None then storeAssetLoad name url s else s) st decls"

text \<open>The built-in geometries, stored when the map is empty (\<open>assetMap.size === 0\<close>).\<close>

definition seed_builtins :: "assets \<Rightarrow> assets" where
  "seed_builtins st =
     (if assetMap st = Map.empty
      then storeAssetValue ''torus'' (Ref 4) (storeAssetValue ''plane'' (Ref 3)
             (storeAssetValue ''sphere'' (Ref 2) (storeAssetValue ''cube'' (Ref 1) st)))
      else st)"

text \<open>
  \<open>getAsset(name, path)\<close>: the result is \<open>assetMap.get(key)\<close>, or \<open>None\<close> for the
  \<open>null\<close> returned when the asset is missing and no path was supplied (\<open>!path\<close>).
\<close>

definition getAsset :: "(string \<times> string) list \<Rightarrow> string \<Rightarrow> string option \<Rightarrow> assets
    \<Rightarrow> asset_entry option \<times> assets" where
  "getAsset decls name path st =
     (let st2 = gatherAssetRules decls (seed_builtins st) in
      if assetMap st2 name = None then
        (case path of
           None \<Rightarrow> (None, st2)
         | Some p \<Rightarrow>
             if p = [] then (None, st2)
             else (assetMap (storeAssetLoad name p st2) name, storeAssetLoad name p st2))
      else (assetMap st2 name, st2))"

text \<open>
  The built-ins are stored: so it is once \<open>getAsset\<close> has been called, since nothing
  removes or replaces them.
\<close>

definition builtins_stored :: "assets \<Rightarrow> bool" where
  "builtins_stored st =
     list_all (\<lambda>b. case assetMap st b of Some (Value v) \<Rightarrow> True | _ \<Rightarrow> False)
       [''cube'', ''sphere'', ''plane'', ''torus'']"

text \<open>The loads issued for one key.\<close>

definition loads_for :: "string \<Rightarrow> assets \<Rightarrow> (string \<times> string) list" where
  "loads_for name st = filter (\<lambda>l. fst l = name) (loads st)"

lemmas asset_defs = storeAssetValue_def storeAssetLoad_def load_resolved_def load_failed_def
  gatherAssetRules_def seed_builtins_def getAsset_def loads_for_def

section \<open>utils.js: fastRemove_arry\<close>

text \<open>\<open>arry.indexOf(item)\<close>: the first position of the item, \<open>None\<close> for \<open>-1\<close>.\<close>

fun index_of :: "'a list \<Rightarrow> 'a \<Rightarrow> nat option" where
  "index_of [] x = None"
| "index_of (y # ys) x = (if y = x then Some 0 else map_option Suc (index_of ys x))"

text \<open>
  \<open>fastRemove_arry(arry, item)\<close>: the last element is written over the first
  occurrence of the item, and the array is popped.
\<close>

definition fastRemove_arry :: "'a list \<Rightarrow> 'a \<Rightarrow> 'a list" where
  "fastRemove_arry arry item =
     (case index_of arry item of
        None \<Rightarrow> arry
      | Some i \<Rightarrow> butlast (arry[i := last arry]))"

section \<open>NoScope.js: pointer move\<close>

text \<open>
  The pseudo-state flags of a node (\<open>userData.extraParams\<close>): \<open>addFlag\<close> pushes a flag
  that is not there yet, \<open>delFlag\<close> is \<open>fastRemove_arry\<close>.
\<close>

definition addFlag :: "string list \<Rightarrow> string \<Rightarrow> string list" where
  "addFlag arr flag = (if flag \<in> set arr then arr else arr @ [flag])"

definition delFlag :: "string list \<Rightarrow> string \<Rightarrow> string list" where
  "delFlag arr flag = fastRemove_arry arr flag"

text \<open>
  What the pointer-move handler reads and writes. Scene nodes are identified by
  numbers. Of the cell: whether \<open>focusedCamera\<close> is set, \<open>_last_cast_caught\<close> and
  \<open>_lastHitPosition\<close>; of every node: its flags, and the handler properties
  (\<open>onmouseenter\<close>, ...) that are set on its source element. A handler is called as
  \<open>domEl.onmouseleave?.call(domEl, event)\<close>, so nothing is called when the property is
  not set; what a handler itself does is outside the model.
\<close>

type_synonym point = "real \<times> real \<times> real"

record picking =
  focusedCamera :: bool
  last_cast_caught :: "nat option"
  lastHitPosition :: "point option"
  extraParams :: "nat \<Rightarrow> string list"
  handlers :: "nat \<Rightarrow> string list"

text \<open>
  The trace of a pointer move: a synthetic event delivered to a handler (its \<open>type\<close>,
  its \<open>target3d\<close>, its \<open>pointerPosition\<close>, and the flags the target has at that
  moment, which the handler can read through \<open>target3d.userData.extraParams\<close>), a
  repaint of one node (\<open>paintSpecificMuse\<close>) and the repaint of the pseudo-state rules
  of the cell (\<open>paintExtraCell\<close>).
\<close>

datatype pm_event =
    Fired string nat "point option" "string list"
  | PaintSpecificMuse nat
  | PaintExtraCell

definition fire :: "picking \<Rightarrow> string \<Rightarrow> string \<Rightarrow> nat \<Rightarrow> point option \<Rightarrow> pm_event list" where
  "fire cell handler type target pos =
     (if handler \<in> set (handlers cell target)
      then [Fired type target pos (extraParams cell target)] else [])"

text \<open>
  The branch shared by the two places that leave a node: the hover flag is deleted,
  then the leave event is fired with the last known position, then the node is
  repainted.
\<close>

definition leave :: "nat \<Rightarrow> picking \<Rightarrow> picking \<times> pm_event list" where
  "leave lastHit cell =
     (case cell\<lparr>extraParams := (extraParams cell)
                   (lastHit := delFlag (extraParams cell lastHit) '':hover'')\<rparr> of
        c \<Rightarrow> (c, fire c ''onmouseleave'' ''cellmouseleave'' lastHit (lastHitPosition c)
                  @ [PaintSpecificMuse lastHit]))"

text \<open>
  Inside \<open>if (hitObject !== lastHit)\<close>, after the leave: \<open>_last_cast_caught\<close> is set and
  the enter event is fired.
\<close>

definition enter :: "nat \<Rightarrow> point \<Rightarrow> picking \<Rightarrow> picking \<times> pm_event list" where
  "enter hitObject pt cell =
     (case cell\<lparr>last_cast_caught := Some hitObject\<rparr> of
        c \<Rightarrow> (c, fire c ''onmouseenter'' ''cellmouseenter'' hitObject (Some pt)))"

text \<open>
  After that \<open>if\<close>, on every move with a hit: the hover flag is added,
  \<open>_lastHitPosition\<close> is set, the hover event is fired, the cell is repainted.
\<close>

definition hover :: "nat \<Rightarrow> point \<Rightarrow> picking \<Rightarrow> picking \<times> pm_event list" where
  "hover hitObject pt cell =
     (case cell\<lparr>extraParams := (extraParams cell)
                   (hitObject := addFlag (extraParams cell hitObject) '':hover''),
                lastHitPosition := Some pt\<rparr> of
        c \<Rightarrow> (c, fire c ''onmouseover'' ''cellhover'' hitObject (Some pt) @ [PaintExtraCell]))"

text \<open>
  \<open>default_onCellPointerMove_method(domEvt, cell)\<close>. \<open>hits\<close> is what
  \<open>raycaster.intersectObjects(cell.loadedScene.children, true)\<close> returns, nearest
  first, each object with its hit point; the handler uses \<open>hits[0]\<close>.
\<close>

definition pointerMove :: "(nat \<times> point) list \<Rightarrow> picking \<Rightarrow> picking \<times> pm_event list" where
  "pointerMove hits cell =
     (if \<not> focusedCamera cell then (cell, [])
      else case hits of
          (hitObject, pt) # _ \<Rightarrow>
            (case (if Some hitObject \<noteq> last_cast_caught cell
                   then (case (case last_cast_caught cell of
                                 Some lastHit \<Rightarrow> leave lastHit cell
                               | None \<Rightarrow> (cell, [])) of
                           (c, es) \<Rightarrow>
                             (case enter hitObject pt c of (c', es') \<Rightarrow> (c', es @ es')))
                   else (cell, [])) of
               (c1, es1) \<Rightarrow> (case hover hitObject pt c1 of (c2, es2) \<Rightarrow> (c2, es1 @ es2)))
        | [] \<Rightarrow>
            (case last_cast_caught cell of
               Some lastHit \<Rightarrow>
                 (case leave lastHit cell of (c, es) \<Rightarrow> (c\<lparr>last_cast_caught := None\<rparr>, es))
             | None \<Rightarrow> (cell, [])))"

text \<open>The synthetic events among the trace, and those of one type.\<close>

fun is_fired :: "pm_event \<Rightarrow> bool" where
  "is_fired (Fired _ _ _ _) = True"
| "is_fired _ = False"

fun event_type :: "pm_event \<Rightarrow> string" where
  "event_type (Fired ty _ _ _) = ty"
| "event_type _ = []"

lemmas picking_defs = fastRemove_arry_def addFlag_def delFlag_def fire_def leave_def enter_def
  hover_def pointerMove_def

section \<open>cell.js: removing a node\<close>

text \<open>
  The part of a \<open>Cell\<close> that \<open>removeConvict\<close> reads and writes. Scene objects and
  document elements are identified by numbers. The three arrays \<open>classyConvicts\<close>,
  \<open>namedConvicts\<close> and \<open>constantConvicts\<close>; the map \<open>_allConvictsByDom\<close> from an
  element to its node; the scene graph (\<open>object.children\<close>, \<open>object.parent\<close>, the
  scene itself being one of the objects); \<open>object.userData.domEl\<close>; and the parent of
  every element in the document tree (\<open>None\<close> for an element that is detached).
\<close>

record cell =
  classyConvicts :: "nat list"
  namedConvicts :: "nat list"
  constantConvicts :: "nat list"
  allConvictsByDom :: "nat \<rightharpoonup> nat"
  obj_children :: "nat \<Rightarrow> nat list"
  obj_parent :: "nat \<rightharpoonup> nat"
  obj_domEl :: "nat \<rightharpoonup> nat"
  el_parent :: "nat \<rightharpoonup> nat"

text \<open>
  \<open>THREE.Object3D.remove(object)\<close> (the graphics library): if the object is among the
  children, its parent is cleared and it is spliced out of the children.
\<close>

definition object_remove :: "nat \<Rightarrow> nat \<Rightarrow> cell \<Rightarrow> cell" where
  "object_remove p ob st =
     (if ob \<in> set (obj_children st p)
      then st\<lparr>obj_children := (obj_children st)(p := remove1 ob (obj_children st p)),
              obj_parent := (obj_parent st)(ob := None)\<rparr>
      else st)"

text \<open>
  The second half of \<open>removeConvict\<close>, after the loop over the children: the three
  \<open>fastRemove_arry\<close> calls; for a node with a source element,
  \<open>_allConvictsByDom.delete(domEl)\<close> and \<open>domEl.remove()\<close>, which takes the element out
  of its parent; and \<open>convict.parent.remove(convict)\<close>.
\<close>

definition unregister :: "nat \<Rightarrow> cell \<Rightarrow> cell" where
  "unregister convict st =
     (case st\<lparr>classyConvicts := fastRemove_arry (classyConvicts st) convict,
              namedConvicts := fastRemove_arry (namedConvicts st) convict,
              constantConvicts := fastRemove_arry (constantConvicts st) convict\<rparr> of
        st1 \<Rightarrow>
          (case (case obj_domEl st1 convict of
                   None \<Rightarrow> st1
                 | Some e \<Rightarrow> st1\<lparr>allConvictsByDom := (allConvictsByDom st1)(e := None),
                                 el_parent := (el_parent st1)(e := None)\<rparr>) of
             st2 \<Rightarrow>
               (case obj_parent st2 convict of
                  None \<Rightarrow> st2
                | Some p \<Rightarrow> object_remove p convict st2)))"

text \<open>
  \<open>removeConvict(convict)\<close>. The recursion follows the scene graph, so it is bounded by
  a fuel; the result is \<open>None\<close> when the fuel runs out. \<open>removeChildren\<close> is the
  \<open>forEach\<close> over \<open>convict.children.slice()\<close>: a child with a source element is removed
  through the map (\<open>this._allConvictsByDom.get(domNode)\<close>), any other child directly.
\<close>

fun removeConvict :: "nat \<Rightarrow> nat option \<Rightarrow> cell \<Rightarrow> cell option"
  and removeChildren :: "nat \<Rightarrow> nat list \<Rightarrow> cell \<Rightarrow> cell option" where
  "removeConvict 0 convict st = None"
| "removeConvict (Suc n) None st = Some st"
| "removeConvict (Suc n) (Some convict) st =
     (case removeChildren n (obj_children st convict) st of
        None \<Rightarrow> None
      | Some st' \<Rightarrow> Some (unregister convict st'))"
| "removeChildren n [] st = Some st"
| "removeChildren n (child # rest) st =
     (case removeConvict n
             (case obj_domEl st child of
                Some domNode \<Rightarrow> allConvictsByDom st domNode
              | None \<Rightarrow> Some child) st of
        None \<Rightarrow> None
      | Some st' \<Rightarrow> removeChildren n rest st')"

text \<open>
  The handler of the mutation observer for a removed element:
  \<open>this.removeConvict(this._allConvictsByDom.get(node))\<close>.
\<close>

definition element_removed :: "nat \<Rightarrow> nat \<Rightarrow> cell \<Rightarrow> cell option" where
  "element_removed fuel el st = removeConvict fuel (allConvictsByDom st el) st"

section \<open>cell.js: scanning an element\<close>

text \<open>
  \<open>THREE.Object3D.add(object)\<close> (the graphics library): the object is taken out of its
  previous parent, if any, its parent is set and it is pushed on the children.
\<close>

definition object_add :: "nat \<Rightarrow> nat \<Rightarrow> cell \<Rightarrow> cell" where
  "object_add p ob st =
     (if ob = p then st
      else case (case obj_parent st ob of None \<Rightarrow> st | Some q \<Rightarrow> object_remove q ob st) of
        st1 \<Rightarrow> st1\<lparr>obj_children := (obj_children st1)(p := obj_children st1 p @ [ob]),
                    obj_parent := (obj_parent st1)(ob \<mapsto> p)\<rparr>)"

text \<open>
  What \<open>ScanElement\<close> reads of the document besides \<open>elm.parentElement\<close>:
  \<open>elm.children\<close>, \<open>elm.id\<close> (empty when there is none), \<open>elm.classList\<close>, and
  \<open>ConvertDomToObject(elm)\<close>, the new object for a tag that names a class of the
  graphics library, \<open>None\<close> for any other tag (and for \<open>CANVAS\<close>).
\<close>

record document =
  d_children :: "nat \<Rightarrow> nat list"
  d_id :: "nat \<Rightarrow> string"
  d_classList :: "nat \<Rightarrow> string list"
  d_convert :: "nat \<Rightarrow> nat option"

text \<open>
  The registration of a new instance in \<open>ScanElement\<close>: \<open>userData.domEl\<close>,
  \<open>parentObj.add(instance)\<close>, the arrays (\<open>constantConvicts\<close> when a rule \<open>:active\<close>
  exists for the id or for one of the classes) and the map. (The configuration of a
  camera tag, which touches none of these, is left out.)
\<close>

definition register :: "sheet list \<Rightarrow> document \<Rightarrow> nat \<Rightarrow> nat \<Rightarrow> nat \<Rightarrow> cell \<Rightarrow> cell" where
  "register sheets doc parentObj elm instance st =
     (case object_add parentObj instance (st\<lparr>obj_domEl := (obj_domEl st)(instance \<mapsto> elm)\<rparr>) of
        st1 \<Rightarrow>
     (case (if d_id doc elm = [] then st1
            else (case st1\<lparr>namedConvicts := namedConvicts st1 @ [instance]\<rparr> of
                    st1' \<Rightarrow>
                      if instance \<notin> set (constantConvicts st1')
                         \<and> getCSSRule sheets (''#'' @ d_id doc elm @ '':active'') \<noteq> None
                      then st1'\<lparr>constantConvicts := constantConvicts st1' @ [instance]\<rparr>
                      else st1')) of
        st2 \<Rightarrow>
     (case (if filter (\<lambda>c. c \<noteq> []) (d_classList doc elm) = [] then st2
            else (case st2\<lparr>classyConvicts := classyConvicts st2 @ [instance]\<rparr> of
                    st2' \<Rightarrow>
                      if list_ex (\<lambda>cls. getCSSRule sheets (''.'' @ cls @ '':active'') \<noteq> None)
                           (filter (\<lambda>c. c \<noteq> []) (d_classList doc elm))
                         \<and> instance \<notin> set (constantConvicts st2')
                      then st2'\<lparr>constantConvicts := constantConvicts st2' @ [instance]\<rparr>
                      else st2')) of
        st3 \<Rightarrow> st3\<lparr>allConvictsByDom := (allConvictsByDom st3)(elm \<mapsto> instance)\<rparr>)))"

text \<open>
  \<open>ScanElement(elm)\<close>: nothing for an element that is mapped; the parent object is the
  node of \<open>elm.parentElement\<close>, or the scene when that element has no node; for an
  unknown tag the children are scanned all the same (\<open>still recurse children\<close>);
  otherwise the instance is registered and the children are scanned. The recursion
  follows the document, so it is bounded by a fuel.
\<close>

fun ScanElement :: "nat \<Rightarrow> sheet list \<Rightarrow> document \<Rightarrow> nat \<Rightarrow> nat \<Rightarrow> cell \<Rightarrow> cell option"
  and ScanChildren :: "nat \<Rightarrow> sheet list \<Rightarrow> document \<Rightarrow> nat \<Rightarrow> nat list \<Rightarrow> cell \<Rightarrow> cell option" where
  "ScanElement 0 sheets doc scene elm st = None"
| "ScanElement (Suc n) sheets doc scene elm st =
     (if allConvictsByDom st elm \<noteq> None then Some st
      else case d_convert doc elm of
          None \<Rightarrow> ScanChildren n sheets doc scene (d_children doc elm) st
        | Some instance \<Rightarrow>
            ScanChildren n sheets doc scene (d_children doc elm)
              (register sheets doc
                 (case el_parent st elm of
                    None \<Rightarrow> scene
                  | Some pe \<Rightarrow> (case allConvictsByDom st pe of None \<Rightarrow> scene | Some ob \<Rightarrow> ob))
                 elm instance st))"
| "ScanChildren n sheets doc scene [] st = Some st"
| "ScanChildren n sheets doc scene (child # rest) st =
     (case ScanElement n sheets doc scene child st of
        None \<Rightarrow> None
      | Some st' \<Rightarrow> ScanChildren n sheets doc scene rest st')"

text \<open>
  The handler of the mutation observer for an added element that is neither a canvas
  nor a style element: \<open>this.ScanElement(node)\<close> (followed by the paint of its node).
  A mutation record lists, in \<open>addedNodes\<close> and \<open>removedNodes\<close>, the children that were
  added to or removed from its target, not their descendants.
\<close>

definition element_added :: "nat \<Rightarrow> sheet list \<Rightarrow> document \<Rightarrow> nat \<Rightarrow> nat \<Rightarrow> cell \<Rightarrow> cell option" where
  "element_added fuel sheets doc scene el st = ScanElement fuel sheets doc scene el st"

text \<open>
  An element is in the document of the cell when the chain of its parents reaches the
  cell element \<open>cellElm\<close> (\<open>n\<close> bounds the length of the chain).
\<close>

fun in_document :: "nat \<Rightarrow> (nat \<rightharpoonup> nat) \<Rightarrow> nat \<Rightarrow> nat \<Rightarrow> bool" where
  "in_document 0 parents cellElm e = False"
| "in_document (Suc n) parents cellElm e =
     (e = cellElm
      \<or> (case parents e of None \<Rightarrow> False | Some p \<Rightarrow> in_document n parents cellElm p))"

section \<open>The scene graph below a node as a tree\<close>

text \<open>
  To speak about a node and its descendants, the part of the scene graph below a node
  is described by a tree: \<open>shape st t\<close> says that the children of every node of \<open>t\<close> are
  the roots of its subtrees, in order, each with its parent pointer set.
\<close>

datatype tree = Node nat "tree list"

fun root :: "tree \<Rightarrow> nat" where
  "root (Node c ts) = c"

fun nodes :: "tree \<Rightarrow> nat list" where
  "nodes (Node c ts) = c # concat (map nodes ts)"

fun postorder :: "tree \<Rightarrow> nat list" where
  "postorder (Node c ts) = concat (map postorder ts) @ [c]"

fun height :: "tree \<Rightarrow> nat" where
  "height (Node c ts) = Suc (fold max (map height ts) 0)"

fun shape :: "cell \<Rightarrow> tree \<Rightarrow> bool" where
  "shape st (Node c ts) =
     (obj_children st c = map root ts
      \<and> list_all (\<lambda>t. obj_parent st (root t) = Some c \<and> shape st t) ts)"

text \<open>
  The invariants of a cell that concern the nodes of a tree \<open>t\<close> whose root is a node
  of the cell: the nodes are distinct; the map and \<open>userData.domEl\<close> agree on them in
  both directions; no node is listed twice in an array; and the root, if it has a
  parent, is one of the (distinct) children of a parent outside the tree.
\<close>

definition mapped :: "cell \<Rightarrow> tree \<Rightarrow> bool" where
  "mapped st t =
     (list_all (\<lambda>d. case obj_domEl st d of None \<Rightarrow> True
                     | Some e \<Rightarrow> allConvictsByDom st e = Some d) (nodes t)
      \<and> (\<forall>e d. allConvictsByDom st e = Some d \<longrightarrow> d \<in> set (nodes t) \<longrightarrow> obj_domEl st d = Some e))"

definition attached :: "cell \<Rightarrow> tree \<Rightarrow> bool" where
  "attached st t =
     (case obj_parent st (root t) of
        None \<Rightarrow> True
      | Some p \<Rightarrow> p \<notin> set (nodes t) \<and> root t \<in> set (obj_children st p)
                  \<and> distinct (obj_children st p))"

definition wf_subtree :: "cell \<Rightarrow> tree \<Rightarrow> bool" where
  "wf_subtree st t =
     (shape st t \<and> distinct (nodes t) \<and> mapped st t \<and> attached st t
      \<and> distinct (classyConvicts st) \<and> distinct (namedConvicts st)
      \<and> distinct (constantConvicts st))"

text \<open>The source elements of the nodes of a tree.\<close>

definition elements_of :: "cell \<Rightarrow> tree \<Rightarrow> nat set" where
  "elements_of st t = {e. \<exists>d \<in> set (nodes t). obj_domEl st d = Some e}"

lemmas cell_defs = object_remove_def unregister_def element_removed_def object_add_def
  register_def element_added_def mapped_def attached_def
  wf_subtree_def elements_of_def

text \<open>
  A small cell to run the definitions on. The scene is object 0; node 1 (element 10)
  and node 3 (element 12) are its children, node 2 (element 11) is a child of node 1.
  Element 10 has already been taken out of its parent, the cell element 9; element 11
  is still inside element 10, element 12 inside element 9.
\<close>

definition example_cell :: cell where
  "example_cell =
     \<lparr>classyConvicts = [1, 2, 3], namedConvicts = [2, 1], constantConvicts = [2],
       allConvictsByDom = [10 \<mapsto> 1, 11 \<mapsto> 2, 12 \<mapsto> 3],
       obj_children = (\<lambda>x. [])(0 := [1, 3], 1 := [2]),
       obj_parent = [1 \<mapsto> 0, 2 \<mapsto> 1, 3 \<mapsto> 0],
       obj_domEl = [1 \<mapsto> 10, 2 \<mapsto> 11, 3 \<mapsto> 12],
       el_parent = [11 \<mapsto> 10, 12 \<mapsto> 9]\<rparr>"

definition example_tree :: tree where
  "example_tree = Node 1 [Node 2 []]"

text \<open>
  A document to scan. The cell element is 9, the scene is object 0. The children of
  the cell element are element 10, \<open><mesh class="a">\<close>, and element 12,
  \<open><group class="c">\<close>. Element 10 has two children: element 13, a \<open><div>\<close> (a tag that
  names no class of the graphics library) whose child is element 11,
  \<open><mesh class="b">\<close>; and element 14, \<open><mesh class="d">\<close>. The objects created for
  elements 10, 11, 12 and 14 are 1, 2, 3 and 4. No stylesheet is loaded.
\<close>

definition wrapper_document :: document where
  "wrapper_document =
     \<lparr>d_children = (\<lambda>e. [])(9 := [10, 12], 10 := [13, 14], 13 := [11]),
       d_id = (\<lambda>e. []),
       d_classList = (\<lambda>e. [])(10 := [''a''], 11 := [''b''], 12 := [''c''], 14 := [''d'']),
       d_convert = (\<lambda>e. None)(10 := Some 1, 11 := Some 2, 12 := Some 3, 14 := Some 4)\<rparr>"

definition empty_cell :: cell where
  "empty_cell =
     \<lparr>classyConvicts = [], namedConvicts = [], constantConvicts = [],
       allConvictsByDom = Map.empty, obj_children = (\<lambda>x. []), obj_parent = Map.empty,
       obj_domEl = Map.empty,
       el_parent = [10 \<mapsto> 9, 12 \<mapsto> 9, 13 \<mapsto> 10, 14 \<mapsto> 10, 11 \<mapsto> 13]\<rparr>"

section \<open>Interpolation: properties\<close>

lemma length_lerpArray: "length (lerpArray xs ys t f) = max (length xs) (length ys)"
  by (simp add: lerpArray_def)

lemma lerpArray_example:
  "lerpArray [Num (Fin 1), Num (Fin 2), Num (Fin 3), Num (Fin 4)]
       [Num (Fin 10), Num (Fin 20), Num (Fin 30)] (Fin (1/2)) lerpNumber
     = [Num (Fin (11/2)), Num (Fin 11), Num (Fin (33/2)), Num (Fin 4)]"
  by (simp add: lerpArray_def jsub_def upt_conv_Cons)

text \<open>
  Claim C9. For all arrays \<open>xs\<close> (from) and \<open>ys\<close> (to) and every \<open>t\<close>: the result of
  array interpolation has the length of the longer input (no truncation); an index
  present in both inputs holds the lerp of the two elements; an index present in only
  one input holds that input's element unchanged; \<open>lerpValue\<close> on two arrays is this
  interpolation (a total function: no error on a length mismatch); and
  \<open>lerpArray([1,2,3,4],[10,20,30],0.5) = [5.5,11,16.5,4]\<close>.
\<close>

theorem lerpArray_tolerant:
  "length (lerpArray xs ys t f) = max (length xs) (length ys)
   \<and> (\<forall>i. i < length xs \<and> i < length ys \<longrightarrow> lerpArray xs ys t f ! i = f (xs ! i) (ys ! i) t)
   \<and> (\<forall>i. length ys \<le> i \<and> i < length xs \<longrightarrow> lerpArray xs ys t f ! i = xs ! i)
   \<and> (\<forall>i. length xs \<le> i \<and> i < length ys \<longrightarrow> lerpArray xs ys t f ! i = ys ! i)
   \<and> lerpValue (Arr xs) (Arr ys) t f = Arr (lerpArray xs ys t f)
   \<and> lerpValue (Arr [Num (Fin 1), Num (Fin 2), Num (Fin 3), Num (Fin 4)])
         (Arr [Num (Fin 10), Num (Fin 20), Num (Fin 30)]) (Fin (1/2)) lerpNumber
       = Arr [Num (Fin (11/2)), Num (Fin 11), Num (Fin (33/2)), Num (Fin 4)]"
proof -
  have both: "\<forall>i. i < length xs \<and> i < length ys \<longrightarrow> lerpArray xs ys t f ! i = f (xs ! i) (ys ! i) t"
    by (auto simp: lerpArray_def simp del: upt_Suc)
  have only_from: "\<forall>i. length ys \<le> i \<and> i < length xs \<longrightarrow> lerpArray xs ys t f ! i = xs ! i"
    by (auto simp: lerpArray_def simp del: upt_Suc)
  have only_to: "\<forall>i. length xs \<le> i \<and> i < length ys \<longrightarrow> lerpArray xs ys t f ! i = ys ! i"
    by (auto simp: lerpArray_def simp del: upt_Suc)
  show ?thesis
    using both only_from only_to by (simp add: length_lerpArray lerpArray_example lerpValue_def)
qed

theorem lerpArray_tolerant_witness:
  "length (lerpArray [Num (Fin 1), Num (Fin 2)] [Num (Fin 10)] (Fin (1/2)) lerpNumber) = 2
   \<and> lerpArray [Num (Fin 1), Num (Fin 2)] [Num (Fin 10)] (Fin (1/2)) lerpNumber ! 0 = Num (Fin (11/2))
   \<and> lerpArray [Num (Fin 1), Num (Fin 2)] [Num (Fin 10)] (Fin (1/2)) lerpNumber ! 1 = Num (Fin 2)
   \<and> lerpArray [Num (Fin 10)] [Num (Fin 1), Num (Fin 2)] (Fin (1/2)) lerpNumber ! 1 = Num (Fin 2)"
  using lerpArray_tolerant [of "[Num (Fin 1), Num (Fin 2)]" "[Num (Fin 10)]" "Fin (1/2)" lerpNumber]
    lerpArray_tolerant [of "[Num (Fin 10)]" "[Num (Fin 1), Num (Fin 2)]" "Fin (1/2)" lerpNumber]
  by (simp add: jsub_def)

section \<open>animateLerp: properties\<close>

lemma isAnimatable_iff: "isAnimatable v \<longleftrightarrow> is_number v \<or> (\<exists>xs. v = Arr xs)"
  by (cases v) (simp_all add: isAnimatable_def)

lemma animateLerp_scheduled:
  assumes "isAnimatable from" and "isAnimatable to" and "0 < d"
  shows "animateLerp now from to (Num (Fin d)) u c tf =
    Scheduled \<lparr>r_from = from, r_to = to, r_duration = d, r_start = now,
      r_timing = tf, r_onUpdate = u, r_onComplete = c\<rparr>"
  using assms by (simp add: animateLerp_def)

lemma animateLerp_duration_instant:
  assumes "\<not> (\<exists>d. durationMs = Num (Fin d) \<and> 0 < d)"
  shows "animateLerp now from to durationMs u c tf = Instant (finishInstant to u c)"
proof (cases durationMs)
  case (Num n)
  with assms show ?thesis
    by (cases n) (auto simp: animateLerp_def)
qed (simp_all add: animateLerp_def)

lemma animateLerp_not_animatable:
  assumes "\<not> isAnimatable from \<or> \<not> isAnimatable to"
  shows "animateLerp now from to durationMs u c tf = Instant (finishInstant to u c)"
  using assms by (auto simp: animateLerp_def)

text \<open>
  Claim C8, as stated, fails: a value that is an array is animatable whatever its
  elements are (\<open>Array.isArray\<close>). The rotation of an object read with \<open>toArray()\<close> is
  \<open>[x, y, z, 'XYZ']\<close>, not a numeric array; animated to another such array over 300 ms,
  it does not resolve instantly: no callback is called synchronously, a frame is
  requested, and the frame at 150 ms updates with the interpolated array.
\<close>

theorem animateLerp_array_counterexample:
  "\<not> list_all is_number [Num (Fin 0), Num (Fin 0), Num (Fin 0), Str ''XYZ'']
   \<and> animateLerp 0 (Arr [Num (Fin 0), Num (Fin 0), Num (Fin 0), Str ''XYZ''])
         (Arr [Num (Fin 1), Num (Fin 2), Num (Fin 3), Str ''XYZ'']) (Num (Fin 300)) True True ''linear''
       = Scheduled \<lparr>r_from = Arr [Num (Fin 0), Num (Fin 0), Num (Fin 0), Str ''XYZ''],
           r_to = Arr [Num (Fin 1), Num (Fin 2), Num (Fin 3), Str ''XYZ''],
           r_duration = 300, r_start = 0, r_timing = ''linear'', r_onUpdate = True,
           r_onComplete = True\<rparr>
   \<and> animateLerp 0 (Arr [Num (Fin 0), Num (Fin 0), Num (Fin 0), Str ''XYZ''])
         (Arr [Num (Fin 1), Num (Fin 2), Num (Fin 3), Str ''XYZ'']) (Num (Fin 300)) True True ''linear''
       \<noteq> Instant [OnUpdate (Arr [Num (Fin 1), Num (Fin 2), Num (Fin 3), Str ''XYZ'']) (Fin 1),
                    OnComplete (Arr [Num (Fin 1), Num (Fin 2), Num (Fin 3), Str ''XYZ''])]
   \<and> step (\<lambda>timing t. Fin t)
        \<lparr>r_from = Arr [Num (Fin 0), Num (Fin 0), Num (Fin 0), Str ''XYZ''],
          r_to = Arr [Num (Fin 1), Num (Fin 2), Num (Fin 3), Str ''XYZ''],
          r_duration = 300, r_start = 0, r_timing = ''linear'', r_onUpdate = True,
          r_onComplete = True\<rparr> 150
       = ([OnUpdate (Arr [Num (Fin (1/2)), Num (Fin 1), Num (Fin (3/2)),
                          Mixed (Str ''XYZ'') (Str ''XYZ'') (Fin (1/2))]) (Fin (1/2))], True)"
  by (simp add: animateLerp_def isAnimatable_def step_def Let_def call_def lerpValue_def
      lerpArray_def jsub_def upt_conv_Cons)

text \<open>
  Claim C8, amended. A value is animatable when it is a number or an array, whatever
  the elements of the array. If \<open>from\<close> or \<open>to\<close> is not animatable, or the duration is
  not a positive finite number, \<open>animateLerp\<close> returns having requested no frame, and
  the callbacks it invoked are exactly: the update callback with \<open>(to, 1)\<close>, then the
  complete callback with \<open>to\<close>, each once (each only if the caller passed it).
  Otherwise (both values animatable, the duration finite and positive) it invokes no
  callback before it returns and requests a frame.
\<close>

theorem animateLerp_instant:
  "(isAnimatable v \<longleftrightarrow> is_number v \<or> (\<exists>xs. v = Arr xs))
   \<and> (\<not> isAnimatable from \<or> \<not> isAnimatable to \<or> \<not> (\<exists>d. durationMs = Num (Fin d) \<and> 0 < d) \<longrightarrow>
        animateLerp now from to durationMs True True tf
          = Instant [OnUpdate to (Fin 1), OnComplete to]
        \<and> animateLerp now from to durationMs onUpdate onComplete tf
          = Instant (call onUpdate (OnUpdate to (Fin 1)) @ call onComplete (OnComplete to)))
   \<and> (isAnimatable from \<and> isAnimatable to \<and> durationMs = Num (Fin d) \<and> 0 < d \<longrightarrow>
        animateLerp now from to durationMs onUpdate onComplete tf
          = Scheduled \<lparr>r_from = from, r_to = to, r_duration = d, r_start = now,
              r_timing = tf, r_onUpdate = onUpdate, r_onComplete = onComplete\<rparr>)"
proof (intro conjI impI)
  show "isAnimatable v \<longleftrightarrow> is_number v \<or> (\<exists>xs. v = Arr xs)"
    by (rule isAnimatable_iff)
next
  assume a: "\<not> isAnimatable from \<or> \<not> isAnimatable to \<or> \<not> (\<exists>d. durationMs = Num (Fin d) \<and> 0 < d)"
  have inst: "animateLerp now from to durationMs u c tf = Instant (finishInstant to u c)" for u c
  proof (cases "\<not> isAnimatable from \<or> \<not> isAnimatable to")
    case True
    then show ?thesis by (rule animateLerp_not_animatable)
  next
    case False
    with a have "\<not> (\<exists>d. durationMs = Num (Fin d) \<and> 0 < d)"
      by blast
    then show ?thesis by (rule animateLerp_duration_instant)
  qed
  show "animateLerp now from to durationMs True True tf = Instant [OnUpdate to (Fin 1), OnComplete to]"
    by (simp add: inst finishInstant_def call_def)
  show "animateLerp now from to durationMs onUpdate onComplete tf
          = Instant (call onUpdate (OnUpdate to (Fin 1)) @ call onComplete (OnComplete to))"
    by (simp add: inst finishInstant_def)
next
  assume "isAnimatable from \<and> isAnimatable to \<and> durationMs = Num (Fin d) \<and> 0 < d"
  then show "animateLerp now from to durationMs onUpdate onComplete tf
          = Scheduled \<lparr>r_from = from, r_to = to, r_duration = d, r_start = now,
              r_timing = tf, r_onUpdate = onUpdate, r_onComplete = onComplete\<rparr>"
    by (simp add: animateLerp_scheduled)
qed

theorem animateLerp_instant_witness:
  "animateLerp 0 (Str ''red'') (Str ''blue'') (Num (Fin 300)) True True ''linear''
     = Instant [OnUpdate (Str ''blue'') (Fin 1), OnComplete (Str ''blue'')]
   \<and> animateLerp 0 (Num (Fin 0)) (Num (Fin 5)) (Num (Fin 0)) True True ''linear''
     = Instant [OnUpdate (Num (Fin 5)) (Fin 1), OnComplete (Num (Fin 5))]
   \<and> animateLerp 0 (Num (Fin 0)) (Num (Fin 5)) (Num PosInf) True True ''linear''
     = Instant [OnUpdate (Num (Fin 5)) (Fin 1), OnComplete (Num (Fin 5))]
   \<and> animateLerp 0 (Arr [Num (Fin 0), Str ''XYZ'']) (Arr [Num (Fin 1), Str ''XYZ'']) (Num (Fin 300))
       True True ''linear''
     = Scheduled \<lparr>r_from = Arr [Num (Fin 0), Str ''XYZ''], r_to = Arr [Num (Fin 1), Str ''XYZ''],
         r_duration = 300, r_start = 0, r_timing = ''linear'', r_onUpdate = True,
         r_onComplete = True\<rparr>"
  using animateLerp_instant [of "Str ''red''" "Str ''red''" "Str ''blue''" "Num (Fin 300)" 0 "''linear''" True True 1]
    animateLerp_instant [of "Num (Fin 0)" "Num (Fin 0)" "Num (Fin 5)" "Num (Fin 0)" 0 "''linear''" True True 1]
    animateLerp_instant [of "Num (Fin 0)" "Num (Fin 0)" "Num (Fin 5)" "Num PosInf" 0 "''linear''" True True 1]
    animateLerp_instant [of "Arr [Num (Fin 0), Str ''XYZ'']" "Arr [Num (Fin 0), Str ''XYZ'']"
      "Arr [Num (Fin 1), Str ''XYZ'']" "Num (Fin 300)" 0 "''linear''" True True 300]
  by (simp add: isAnimatable_def)

section \<open>The keyframe-sequence name of an animation config\<close>

lemma is_space_lower_char: "is_space (lower_char c) = is_space c"
proof (cases "map_of (zip ''ABCDEFGHIJKLMNOPQRSTUVWXYZ'' ''abcdefghijklmnopqrstuvwxyz'') c")
  case None
  then show ?thesis by (simp add: lower_char_def)
next
  case (Some l)
  then have "c \<in> set ''ABCDEFGHIJKLMNOPQRSTUVWXYZ''"
    by (meson map_of_SomeD set_zip_leftD)
  then have "\<not> is_space c" and "\<not> is_space (lower_char c)"
    by (auto simp: is_space_def lower_char_def)
  then show ?thesis by simp
qed

lemma not_upper_lower_char: "\<not> is_upper (lower_char c)"
proof (cases "map_of (zip ''ABCDEFGHIJKLMNOPQRSTUVWXYZ'' ''abcdefghijklmnopqrstuvwxyz'') c")
  case None
  then have "c \<notin> set ''ABCDEFGHIJKLMNOPQRSTUVWXYZ''"
    by (auto simp: map_of_eq_None_iff)
  with None show ?thesis by (simp add: lower_char_def is_upper_def)
next
  case (Some l)
  then have "l \<in> set ''abcdefghijklmnopqrstuvwxyz''"
    by (meson map_of_SomeD set_zip_rightD)
  then have "\<not> is_upper l"
    by (auto simp: is_upper_def)
  with Some show ?thesis by (simp add: lower_char_def)
qed

lemma tokens_lower:
  "tokens (map lower_char cur) (map lower_char s) = map (map lower_char) (tokens cur s)"
proof (induction s arbitrary: cur)
  case Nil
  then show ?case by (simp add: rev_map)
next
  case (Cons c s)
  show ?case
    using Cons.IH [of "[]"] Cons.IH [of "c # cur"]
    by (simp add: is_space_lower_char rev_map)
qed

lemma split_ws_toLowerCase: "split_ws (toLowerCase s) = map toLowerCase (split_ws s)"
  using tokens_lower [of "[]" s] by (simp add: split_ws_def toLowerCase_def)

lemma toLowerCase_no_upper: "\<not> list_ex is_upper (toLowerCase s)"
  by (simp add: toLowerCase_def list_ex_iff not_upper_lower_char)

lemma upper_not_lowered:
  assumes "list_ex is_upper n"
  shows "toLowerCase s \<noteq> n"
  using assms toLowerCase_no_upper [of s] by auto

lemma parseAnimationCSS_name:
  assumes "parseAnimationCSS v = Some cfg"
  shows "a_name cfg = hd (split_ws (toLowerCase (trim v)))"
    and "split_ws (toLowerCase (trim v)) \<noteq> []"
  using assms
  by (auto simp: parseAnimationCSS_def split: if_splits list.splits prod.splits)

lemma gatherKeyFrame_MAP_declared:
  "foldl (\<lambda>m r. case r of KeyframesRule n ks \<Rightarrow> m(n \<mapsto> ks) | _ \<Rightarrow> m) Map.empty rs nm = Some fs
    \<Longrightarrow> KeyframesRule nm fs \<in> set rs"
proof (induction rs arbitrary: fs rule: rev_induct)
  case Nil
  then show ?case by simp
next
  case (snoc r rs)
  then show ?case
    by (cases r) (auto split: if_splits)
qed

lemma gatherKeyFrame_MAP_undeclared:
  "(\<forall>fs. KeyframesRule nm fs \<notin> set rs)
    \<Longrightarrow> foldl (\<lambda>m r. case r of KeyframesRule n ks \<Rightarrow> m(n \<mapsto> ks) | _ \<Rightarrow> m) Map.empty rs nm = None"
  using gatherKeyFrame_MAP_declared [of rs nm] by (cases "foldl (\<lambda>m r. case r of KeyframesRule n ks \<Rightarrow> m(n \<mapsto> ks) | _ \<Rightarrow> m) Map.empty rs nm") auto

lemma getAnimationMap_declared:
  "getAnimationMap sheets nm = Some fs \<Longrightarrow> KeyframesRule nm fs \<in> set (all_rules sheets)"
  by (auto simp: getAnimationMap_def gatherKeyFrame_MAP_def split: if_splits
      dest: gatherKeyFrame_MAP_declared)

lemma getAnimationMap_undeclared:
  "(\<forall>fs. KeyframesRule nm fs \<notin> set (all_rules sheets)) \<Longrightarrow> getAnimationMap sheets nm = None"
  by (simp add: getAnimationMap_def gatherKeyFrame_MAP_def gatherKeyFrame_MAP_undeclared)

lemma KeyFrameAnimationLerp_not_found:
  assumes "getAnimationMap sheets (a_name cfg) = None"
  shows "KeyFrameAnimationLerp conv sheets cfg = Returned \<or> KeyFrameAnimationLerp conv sheets cfg = NotFound"
  using assms by (cases "a_duration cfg") (simp_all add: KeyFrameAnimationLerp_def)

text \<open>
  What holds of every \<open>--animation\<close> value \<open>v\<close> that parses to a config: the name is the
  first token of the lowercased value, which is the lowercase form of the first token
  of \<open>v\<close>, and has no uppercase letter; \<open>getAnimationMap\<close> only ever returns the
  keyframes of a rule declared under exactly the name asked for; so when the first
  token has an uppercase letter and no sequence is declared under the lowercased name,
  the run does nothing.
\<close>

lemma parseAnimationCSS_name_lowercased:
  assumes "parseAnimationCSS v = Some cfg"
  shows "a_name cfg = hd (split_ws (toLowerCase (trim v)))
    \<and> a_name cfg = toLowerCase (hd (split_ws (trim v)))
    \<and> \<not> list_ex is_upper (a_name cfg)
    \<and> (\<forall>fs. getAnimationMap sheets (a_name cfg) = Some fs
          \<longrightarrow> KeyframesRule (a_name cfg) fs \<in> set (all_rules sheets))
    \<and> (list_ex is_upper (hd (split_ws (trim v))) \<longrightarrow>
          a_name cfg \<noteq> hd (split_ws (trim v))
          \<and> (\<forall>fs. getAnimationMap sheets (a_name cfg) = Some fs
                \<longrightarrow> KeyframesRule (toLowerCase (hd (split_ws (trim v)))) fs \<in> set (all_rules sheets))
          \<and> ((\<forall>fs. KeyframesRule (toLowerCase (hd (split_ws (trim v)))) fs \<notin> set (all_rules sheets))
                \<longrightarrow> (KeyFrameAnimationLerp conv sheets cfg = Returned
                     \<or> KeyFrameAnimationLerp conv sheets cfg = NotFound)))"
proof -
  have name: "a_name cfg = hd (split_ws (toLowerCase (trim v)))"
    and ne: "split_ws (toLowerCase (trim v)) \<noteq> []"
    using parseAnimationCSS_name [OF assms] by simp_all
  from ne have ne': "split_ws (trim v) \<noteq> []"
    by (simp add: split_ws_toLowerCase)
  have lowered: "a_name cfg = toLowerCase (hd (split_ws (trim v)))"
    using name ne' by (simp add: split_ws_toLowerCase hd_map)
  have no_upper: "\<not> list_ex is_upper (a_name cfg)"
    unfolding lowered by (rule toLowerCase_no_upper)
  have found: "\<forall>fs. getAnimationMap sheets (a_name cfg) = Some fs
      \<longrightarrow> KeyframesRule (a_name cfg) fs \<in> set (all_rules sheets)"
    by (simp add: getAnimationMap_declared)
  have differs: "list_ex is_upper (hd (split_ws (trim v))) \<Longrightarrow> a_name cfg \<noteq> hd (split_ws (trim v))"
    unfolding lowered by (rule upper_not_lowered)
  have no_run: "(\<forall>fs. KeyframesRule (toLowerCase (hd (split_ws (trim v)))) fs \<notin> set (all_rules sheets))
      \<Longrightarrow> KeyFrameAnimationLerp conv sheets cfg = Returned
        \<or> KeyFrameAnimationLerp conv sheets cfg = NotFound"
    using getAnimationMap_undeclared [of "a_name cfg" sheets]
    by (simp add: lowered KeyFrameAnimationLerp_not_found)
  have found': "\<forall>fs. getAnimationMap sheets (a_name cfg) = Some fs
      \<longrightarrow> KeyframesRule (toLowerCase (hd (split_ws (trim v)))) fs \<in> set (all_rules sheets)"
    using found by (simp add: lowered)
  show ?thesis
    using name lowered no_upper found found' differs no_run by blast
qed


text \<open>
  Claim C10 at the declaration \<open>--animation: Spin 1s\<close>. \<open>parseAnimationCSS\<close> takes the
  name from the lowercased value, although its comment says the original case is kept
  for the keyframe name: the config's name is \<open>spin\<close>. With only \<open>@keyframes Spin\<close>
  declared, the sequence the declaration names exists and would be found under its
  name, but the run logs that it was not found. With \<open>@keyframes Spin\<close> and
  \<open>@keyframes spin\<close> both declared, the run does not do nothing, as the claim has it:
  it finds the other sequence, \<open>spin\<close>, and animates \<open>x\<close> from 0 to 10 over 1000 ms,
  while \<open>Spin\<close>, which animates \<open>y\<close>, is never run.
\<close>

theorem animation_name_runs_other_sequence:
  "list_ex is_upper ''Spin''
   \<and> parseAnimationCSS ''Spin 1s''
      = Some \<lparr>a_name = ''spin'', a_duration = Fin 1000, a_iteration = Count 1, a_timing = ''linear''\<rparr>
   \<and> getAnimationMap
        [Some [KeyframesRule ''Spin'' [\<lparr>keyText = ''from'', kstyle = [(''--y'', ''0'')]\<rparr>,
                                      \<lparr>keyText = ''to'', kstyle = [(''--y'', ''1'')]\<rparr>]]]
        ''Spin''
      = Some [\<lparr>keyText = ''from'', kstyle = [(''--y'', ''0'')]\<rparr>,
              \<lparr>keyText = ''to'', kstyle = [(''--y'', ''1'')]\<rparr>]
   \<and> KeyFrameAnimationLerp (CSSValueTo3JSValue (\<lambda>n. Null) (\<lambda>p. Undefined))
        [Some [KeyframesRule ''Spin'' [\<lparr>keyText = ''from'', kstyle = [(''--y'', ''0'')]\<rparr>,
                                      \<lparr>keyText = ''to'', kstyle = [(''--y'', ''1'')]\<rparr>]]]
        \<lparr>a_name = ''spin'', a_duration = Fin 1000, a_iteration = Count 1, a_timing = ''linear''\<rparr>
      = NotFound
   \<and> getAnimationMap
        [Some [KeyframesRule ''Spin'' [\<lparr>keyText = ''from'', kstyle = [(''--y'', ''0'')]\<rparr>,
                                      \<lparr>keyText = ''to'', kstyle = [(''--y'', ''1'')]\<rparr>],
               KeyframesRule ''spin'' [\<lparr>keyText = ''from'', kstyle = [(''--x'', ''0'')]\<rparr>,
                                      \<lparr>keyText = ''to'', kstyle = [(''--x'', ''10'')]\<rparr>]]]
        ''Spin''
      = Some [\<lparr>keyText = ''from'', kstyle = [(''--y'', ''0'')]\<rparr>,
              \<lparr>keyText = ''to'', kstyle = [(''--y'', ''1'')]\<rparr>]
   \<and> KeyFrameAnimationLerp (CSSValueTo3JSValue (\<lambda>n. Null) (\<lambda>p. Undefined))
        [Some [KeyframesRule ''Spin'' [\<lparr>keyText = ''from'', kstyle = [(''--y'', ''0'')]\<rparr>,
                                      \<lparr>keyText = ''to'', kstyle = [(''--y'', ''1'')]\<rparr>],
               KeyframesRule ''spin'' [\<lparr>keyText = ''from'', kstyle = [(''--x'', ''0'')]\<rparr>,
                                      \<lparr>keyText = ''to'', kstyle = [(''--x'', ''10'')]\<rparr>]]]
        \<lparr>a_name = ''spin'', a_duration = Fin 1000, a_iteration = Count 1, a_timing = ''linear''\<rparr>
      = Plan [\<lparr>s_pair = 0, s_ms = 1000, s_anims = [(''x'', Num (Fin 0), Num (Fin 10))]\<rparr>] (Some 1)"
  by (simp add: string_defs number_defs css_defs keyframe_defs)

section \<open>Keyframe sequences: properties\<close>

lemma parseKeyframeTime_text:
  "parseKeyframeTime kt d =
     (if toLowerCase (trim kt) = ''from'' then 0
      else if toLowerCase (trim kt) = ''to'' then d
      else if endsWith (toLowerCase (trim kt)) ''%'' then
        (case parseFloat (toLowerCase (trim kt)) of Fin v \<Rightarrow> (v / 100) * d | _ \<Rightarrow> 0)
      else if endsWith (toLowerCase (trim kt)) ''ms'' then
        (case parseFloat (toLowerCase (trim kt)) of Fin v \<Rightarrow> v | _ \<Rightarrow> 0)
      else (case jsNumber (toLowerCase (trim kt)) of Fin n \<Rightarrow> n | _ \<Rightarrow> 0))"
proof (cases "kt = []")
  case True
  then have "toLowerCase (trim kt) = []"
    by (simp add: trim_def toLowerCase_def)
  then show ?thesis
    using True by (simp add: parseKeyframeTime_def endsWith_def jsNumber_def trim_def)
next
  case False
  then show ?thesis by (simp add: parseKeyframeTime_def)
qed

lemma endsWith_percent_ms: "endsWith t ''%'' \<Longrightarrow> \<not> endsWith t ''ms''"
  by (cases "rev t") (auto simp: endsWith_def)

lemma endsWith_from_to:
  "\<not> endsWith ''from'' ''%''" "\<not> endsWith ''to'' ''%''" "\<not> endsWith ''from'' ''ms''" "\<not> endsWith ''to'' ''ms''"
  by (simp_all add: endsWith_def)

lemma parseKeyframeTime_from: "toLowerCase (trim kt) = ''from'' \<Longrightarrow> parseKeyframeTime kt d = 0"
  by (simp add: parseKeyframeTime_text)

lemma parseKeyframeTime_to: "toLowerCase (trim kt) = ''to'' \<Longrightarrow> parseKeyframeTime kt d = d"
  by (simp add: parseKeyframeTime_text)

lemma parseKeyframeTime_percent:
  "endsWith (toLowerCase (trim kt)) ''%'' \<Longrightarrow> parseFloat (toLowerCase (trim kt)) = Fin v
   \<Longrightarrow> parseKeyframeTime kt d = v / 100 * d"
  using endsWith_from_to by (auto simp: parseKeyframeTime_text)

lemma parseKeyframeTime_ms:
  "endsWith (toLowerCase (trim kt)) ''ms'' \<Longrightarrow> parseFloat (toLowerCase (trim kt)) = Fin v
   \<Longrightarrow> parseKeyframeTime kt d = v"
  using endsWith_from_to endsWith_percent_ms [of "toLowerCase (trim kt)"]
  by (auto simp: parseKeyframeTime_text)

lemma jsNumber_from_to: "jsNumber ''from'' = NaN" "jsNumber ''to'' = NaN"
  by (simp_all add: jsNumber_def number_defs string_defs)

lemma parseKeyframeTime_number:
  "\<not> endsWith (toLowerCase (trim kt)) ''%'' \<Longrightarrow> \<not> endsWith (toLowerCase (trim kt)) ''ms''
   \<Longrightarrow> jsNumber (toLowerCase (trim kt)) = Fin n
   \<Longrightarrow> parseKeyframeTime kt d = n"
  using jsNumber_from_to by (auto simp: parseKeyframeTime_text)

lemma sorted_rules_sorted: "sorted (map (\<lambda>r. parseKeyframeTime (keyText r) d) (sorted_rules d cssRules))"
  by (simp add: sorted_rules_def)

lemma sorted_rules_stable:
  "filter (\<lambda>r. parseKeyframeTime (keyText r) d = t) (sorted_rules d cssRules)
     = filter (\<lambda>r. parseKeyframeTime (keyText r) d = t) cssRules"
  by (simp add: sorted_rules_def sort_key_stable)

lemma animateLerp_launch_cases:
  "animateLerp now f t (Num (Fin ms)) True True timing = Instant [OnUpdate t (Fin 1), OnComplete t]
   \<or> (0 < ms \<and> animateLerp now f t (Num (Fin ms)) True True timing
         = Scheduled \<lparr>r_from = f, r_to = t, r_duration = ms, r_start = now, r_timing = timing,
              r_onUpdate = True, r_onComplete = True\<rparr>)"
  by (simp add: animateLerp_def finishInstant_def call_def split: jsval.splits jsnum.splits)

lemma launch_events:
  assumes "launch settle now timing i ms anims = (es, act)"
  shows "(\<forall>e \<in> set es. pair_of e = i)
       \<and> filter is_launch es = map (\<lambda>a. Launched i (fst a)) anims
       \<and> (\<forall>a \<in> set anims. Settled i (fst a) \<in> set es \<or> fst a \<in> fst ` set act)
       \<and> (\<forall>(k, r) \<in> set act. r_start r = now \<and> r_duration r = ms \<and> 0 < ms
              \<and> r_timing r = timing \<and> r_onComplete r)"
  using assms
proof (induction anims arbitrary: es act)
  case Nil
  then show ?case by simp
next
  case (Cons a anims)
  obtain k fv tv where a: "a = (k, fv, tv)" by (cases a)
  obtain es' act' where rest: "launch settle now timing i ms anims = (es', act')"
    by (cases "launch settle now timing i ms anims")
  note IH = Cons.IH [OF rest]
  from animateLerp_launch_cases [of now "resolveValue settle fv" "resolveValue settle tv" ms timing]
  show ?case
  proof
    assume inst: "animateLerp now (resolveValue settle fv) (resolveValue settle tv) (Num (Fin ms))
                      True True timing
                    = Instant [OnUpdate (resolveValue settle tv) (Fin 1),
                               OnComplete (resolveValue settle tv)]"
    with Cons.prems a rest
    have es: "es = Launched i k # Exchange i k (resolveValue settle tv) # Settled i k # es'"
      and act: "act = act'"
      by simp_all
    show ?thesis
      using IH unfolding es act a by auto
  next
    assume "0 < ms \<and> animateLerp now (resolveValue settle fv) (resolveValue settle tv)
                       (Num (Fin ms)) True True timing
         = Scheduled \<lparr>r_from = resolveValue settle fv, r_to = resolveValue settle tv,
              r_duration = ms, r_start = now, r_timing = timing,
              r_onUpdate = True, r_onComplete = True\<rparr>"
    then have pos: "0 < ms" and sch: "animateLerp now (resolveValue settle fv) (resolveValue settle tv)
                       (Num (Fin ms)) True True timing
         = Scheduled \<lparr>r_from = resolveValue settle fv, r_to = resolveValue settle tv,
              r_duration = ms, r_start = now, r_timing = timing,
              r_onUpdate = True, r_onComplete = True\<rparr>"
      by simp_all
    with Cons.prems a rest
    have es: "es = Launched i k # es'"
      and act: "act = (k, \<lparr>r_from = resolveValue settle fv, r_to = resolveValue settle tv,
              r_duration = ms, r_start = now, r_timing = timing,
              r_onUpdate = True, r_onComplete = True\<rparr>) # act'"
      by simp_all
    show ?thesis
      using IH pos unfolding es act a by auto
  qed
qed

lemma kf_of_event: "pair_of (kf_of i k c) = i \<and> \<not> is_launch (kf_of i k c)"
  by (cases c) simp_all

lemma step_settles:
  "step eqn r now = (cbs, False) \<Longrightarrow> r_onComplete r \<Longrightarrow> \<exists>v. OnComplete v \<in> set cbs"
  by (auto simp: step_def Let_def call_def split: if_splits)

lemma tick_events:
  assumes "tick eqn i now act = (es, act')"
  shows "(\<forall>e \<in> set es. pair_of e = i \<and> \<not> is_launch e)
       \<and> set act' \<subseteq> set act
       \<and> (\<forall>(k, r) \<in> set act. r_onComplete r \<longrightarrow> (k, r) \<in> set act' \<or> Settled i k \<in> set es)"
  using assms
proof (induction act arbitrary: es act')
  case Nil
  then show ?case by simp
next
  case (Cons a act)
  obtain k r where a: "a = (k, r)" by (cases a)
  obtain cbs again where st: "step eqn r now = (cbs, again)" by (cases "step eqn r now")
  obtain es1 act1 where rest: "tick eqn i now act = (es1, act1)" by (cases "tick eqn i now act")
  note IH = Cons.IH [OF rest]
  from Cons.prems a st rest
  have es: "es = map (kf_of i k) cbs @ es1" and act': "act' = (if again then (k, r) # act1 else act1)"
    by simp_all
  have settled: "r_onComplete r \<Longrightarrow> \<not> again \<Longrightarrow> Settled i k \<in> set es"
  proof -
    assume "r_onComplete r" "\<not> again"
    with st obtain v where "OnComplete v \<in> set cbs"
      using step_settles [of eqn r now cbs] by auto
    then have "kf_of i k (OnComplete v) \<in> kf_of i k ` set cbs"
      by (rule imageI)
    then show ?thesis by (simp add: es)
  qed
  have ev: "\<forall>e \<in> set es. pair_of e = i \<and> \<not> is_launch e"
    using IH by (auto simp: es kf_of_event)
  have sub: "set act' \<subseteq> set (a # act)"
    using IH by (auto simp: act' a)
  have keep: "\<forall>(k', r') \<in> set (a # act). r_onComplete r' \<longrightarrow> (k', r') \<in> set act' \<or> Settled i k' \<in> set es"
  proof (intro ballI)
    fix x assume x: "x \<in> set (a # act)"
    obtain k' r' where x': "x = (k', r')" by (cases x)
    show "case x of (k', r') \<Rightarrow> r_onComplete r' \<longrightarrow> (k', r') \<in> set act' \<or> Settled i k' \<in> set es"
    proof (cases "x = a")
      case True
      then show ?thesis
        using settled a x' by (cases again) (auto simp: act')
    next
      case False
      with x have "x \<in> set act" by simp
      with IH have "r_onComplete r' \<longrightarrow> (k', r') \<in> set act1 \<or> Settled i k' \<in> set es1"
        using x' by auto
      then show ?thesis
        by (auto simp: x' act' es)
    qed
  qed
  show ?case using ev sub keep by blast
qed

lemma run_active_events:
  assumes "run_active eqn i act now frames = (es, res)"
  shows "(\<forall>e \<in> set es. pair_of e = i \<and> \<not> is_launch e)
       \<and> (res \<noteq> None \<longrightarrow> (\<forall>(k, r) \<in> set act. r_onComplete r \<longrightarrow> Settled i k \<in> set es))"
  using assms
proof (induction frames arbitrary: act now es res)
  case Nil
  then show ?case by (cases act) auto
next
  case (Cons f fs)
  show ?case
  proof (cases act)
    case Nil
    with Cons.prems show ?thesis by simp
  next
    case (Cons a act0)
    obtain es1 act1 where tk: "tick eqn i f act = (es1, act1)" by (cases "tick eqn i f act")
    obtain es2 res2 where ra: "run_active eqn i act1 f fs = (es2, res2)"
      by (cases "run_active eqn i act1 f fs")
    from Cons.prems Cons tk ra have es: "es = es1 @ es2" and res: "res = res2"
      by simp_all
    note T = tick_events [OF tk]
    note IH = Cons.IH [OF ra]
    have ev: "\<forall>e \<in> set es. pair_of e = i \<and> \<not> is_launch e"
      using T IH by (auto simp: es)
    have st: "res \<noteq> None \<longrightarrow> (\<forall>(k, r) \<in> set act. r_onComplete r \<longrightarrow> Settled i k \<in> set es)"
    proof (intro impI ballI)
      fix x assume r: "res \<noteq> None" and x: "x \<in> set act"
      obtain k r where x': "x = (k, r)" by (cases x)
      from T x x' have "r_onComplete r \<longrightarrow> (k, r) \<in> set act1 \<or> Settled i k \<in> set es1"
        by auto
      moreover from IH r res have "\<forall>(k, r) \<in> set act1. r_onComplete r \<longrightarrow> Settled i k \<in> set es2"
        by simp
      ultimately show "case x of (k, r) \<Rightarrow> r_onComplete r \<longrightarrow> Settled i k \<in> set es"
        by (auto simp: x' es)
    qed
    show ?thesis using ev st by blast
  qed
qed

lemma segment_events:
  assumes l: "launch settle now timing i ms anims = (es0, act)"
    and r: "run_active eqn i act now frames = (es1, res)"
  shows "(\<forall>e \<in> set (es0 @ es1). pair_of e = i)
       \<and> filter is_launch (es0 @ es1) = map (\<lambda>a. Launched i (fst a)) anims
       \<and> (res \<noteq> None \<longrightarrow> (\<forall>a \<in> set anims. Settled i (fst a) \<in> set (es0 @ es1)))"
proof -
  note L = launch_events [OF l]
  note R = run_active_events [OF r]
  have ev: "\<forall>e \<in> set (es0 @ es1). pair_of e = i"
    using L R by auto
  have "filter is_launch es1 = []"
    using R by (simp add: filter_empty_conv)
  then have la: "filter is_launch (es0 @ es1) = map (\<lambda>a. Launched i (fst a)) anims"
    using L by simp
  have st: "res \<noteq> None \<longrightarrow> (\<forall>a \<in> set anims. Settled i (fst a) \<in> set (es0 @ es1))"
  proof (intro impI ballI)
    fix a assume res: "res \<noteq> None" and a: "a \<in> set anims"
    from L a have "Settled i (fst a) \<in> set es0 \<or> fst a \<in> fst ` set act" by blast
    then show "Settled i (fst a) \<in> set (es0 @ es1)"
    proof
      assume "Settled i (fst a) \<in> set es0"
      then show ?thesis by simp
    next
      assume "fst a \<in> fst ` set act"
      then obtain rr where in_act: "(fst a, rr) \<in> set act" by auto
      with L have "r_onComplete rr" by auto
      with R res in_act have "Settled i (fst a) \<in> set es1" by auto
      then show ?thesis by simp
    qed
  qed
  show ?thesis using ev la st by blast
qed

lemma run_segments_Cons:
  assumes "run_segments settle eqn timing (s # ss) now frames = (es, res)"
  shows "\<exists>h. (\<forall>e \<in> set h. pair_of e = s_pair s)
       \<and> filter is_launch h = map (\<lambda>a. Launched (s_pair s) (fst a)) (s_anims s)
       \<and> ((es = h \<and> res = None)
          \<or> (\<exists>now' frames' es2. (\<forall>a \<in> set (s_anims s). Settled (s_pair s) (fst a) \<in> set h)
                \<and> run_segments settle eqn timing ss now' frames' = (es2, res) \<and> es = h @ es2))"
proof -
  obtain es0 act where l: "launch settle now timing (s_pair s) (s_ms s) (s_anims s) = (es0, act)"
    by (cases "launch settle now timing (s_pair s) (s_ms s) (s_anims s)")
  obtain es1 r1 where r: "run_active eqn (s_pair s) act now frames = (es1, r1)"
    by (cases "run_active eqn (s_pair s) act now frames")
  note S = segment_events [OF l r]
  show ?thesis
  proof (cases r1)
    case None
    with assms l r have "es = es0 @ es1" "res = None" by simp_all
    with S show ?thesis by blast
  next
    case (Some p)
    obtain now' frames' where p: "p = (now', frames')" by (cases p)
    obtain es2 res2 where rs: "run_segments settle eqn timing ss now' frames' = (es2, res2)"
      by (cases "run_segments settle eqn timing ss now' frames'")
    from assms l r Some p rs have es: "es = (es0 @ es1) @ es2" and res: "res = res2"
      by simp_all
    from S Some have "\<forall>a \<in> set (s_anims s). Settled (s_pair s) (fst a) \<in> set (es0 @ es1)"
      by simp
    with S rs es res show ?thesis by blast
  qed
qed

lemma run_segments_pairs:
  assumes "run_segments settle eqn timing segs now frames = (es, res)"
  shows "\<forall>e \<in> set es. pair_of e \<in> s_pair ` set segs"
  using assms
proof (induction segs arbitrary: now frames es res)
  case Nil
  then show ?case by simp
next
  case (Cons s ss)
  from run_segments_Cons [OF Cons.prems] obtain h where
    h: "\<forall>e \<in> set h. pair_of e = s_pair s" and
    alt: "(es = h \<and> res = None)
          \<or> (\<exists>now' frames' es2. (\<forall>a \<in> set (s_anims s). Settled (s_pair s) (fst a) \<in> set h)
                \<and> run_segments settle eqn timing ss now' frames' = (es2, res) \<and> es = h @ es2)"
    by blast
  from alt show ?case
  proof
    assume "es = h \<and> res = None"
    with h show ?thesis by simp
  next
    assume "\<exists>now' frames' es2. (\<forall>a \<in> set (s_anims s). Settled (s_pair s) (fst a) \<in> set h)
                \<and> run_segments settle eqn timing ss now' frames' = (es2, res) \<and> es = h @ es2"
    then obtain now' frames' es2 where
      rs: "run_segments settle eqn timing ss now' frames' = (es2, res)" and es: "es = h @ es2"
      by blast
    from Cons.IH [OF rs] h show ?thesis
      by (auto simp: es)
  qed
qed

lemma run_segments_launched:
  assumes "run_segments settle eqn timing segs now frames = (es, res)"
  shows "\<exists>rest. concat (map (\<lambda>s. map (\<lambda>a. Launched (s_pair s) (fst a)) (s_anims s)) segs)
                 = filter is_launch es @ rest
              \<and> (res \<noteq> None \<longrightarrow> rest = [])"
  using assms
proof (induction segs arbitrary: now frames es res)
  case Nil
  then show ?case by simp
next
  case (Cons s ss)
  from run_segments_Cons [OF Cons.prems] obtain h where
    h: "filter is_launch h = map (\<lambda>a. Launched (s_pair s) (fst a)) (s_anims s)" and
    alt: "(es = h \<and> res = None)
          \<or> (\<exists>now' frames' es2. (\<forall>a \<in> set (s_anims s). Settled (s_pair s) (fst a) \<in> set h)
                \<and> run_segments settle eqn timing ss now' frames' = (es2, res) \<and> es = h @ es2)"
    by blast
  from alt show ?case
  proof
    assume "es = h \<and> res = None"
    with h show ?thesis by simp
  next
    assume "\<exists>now' frames' es2. (\<forall>a \<in> set (s_anims s). Settled (s_pair s) (fst a) \<in> set h)
                \<and> run_segments settle eqn timing ss now' frames' = (es2, res) \<and> es = h @ es2"
    then obtain now' frames' es2 where
      rs: "run_segments settle eqn timing ss now' frames' = (es2, res)" and es: "es = h @ es2"
      by blast
    from Cons.IH [OF rs] obtain rest where
      "concat (map (\<lambda>s. map (\<lambda>a. Launched (s_pair s) (fst a)) (s_anims s)) ss)
         = filter is_launch es2 @ rest" and "res \<noteq> None \<longrightarrow> rest = []"
      by blast
    with h show ?thesis
      by (simp add: es)
  qed
qed

lemma sorted_constant: "\<forall>e \<in> set h. f e = (c::nat) \<Longrightarrow> sorted (map f h)"
  by (induction h) auto

lemma run_segments_sorted:
  assumes "run_segments settle eqn timing segs now frames = (es, res)"
    and "sorted_wrt (<) (map s_pair segs)"
  shows "sorted (map pair_of es)"
  using assms
proof (induction segs arbitrary: now frames es res)
  case Nil
  then show ?case by simp
next
  case (Cons s ss)
  from Cons.prems(2) have gt: "\<forall>s' \<in> set ss. s_pair s < s_pair s'"
    and srt: "sorted_wrt (<) (map s_pair ss)"
    by auto
  from run_segments_Cons [OF Cons.prems(1)] obtain h where
    h: "\<forall>e \<in> set h. pair_of e = s_pair s" and
    alt: "(es = h \<and> res = None)
          \<or> (\<exists>now' frames' es2. (\<forall>a \<in> set (s_anims s). Settled (s_pair s) (fst a) \<in> set h)
                \<and> run_segments settle eqn timing ss now' frames' = (es2, res) \<and> es = h @ es2)"
    by blast
  from alt show ?case
  proof
    assume "es = h \<and> res = None"
    then show ?thesis using sorted_constant [OF h] by simp
  next
    assume "\<exists>now' frames' es2. (\<forall>a \<in> set (s_anims s). Settled (s_pair s) (fst a) \<in> set h)
                \<and> run_segments settle eqn timing ss now' frames' = (es2, res) \<and> es = h @ es2"
    then obtain now' frames' es2 where
      rs: "run_segments settle eqn timing ss now' frames' = (es2, res)" and es: "es = h @ es2"
      by blast
    have later: "\<forall>e \<in> set es2. s_pair s < pair_of e"
      using run_segments_pairs [OF rs] gt by auto
    have "sorted (map pair_of h)"
      using h by (rule sorted_constant)
    moreover have "sorted (map pair_of es2)"
      using Cons.IH [OF rs srt] .
    moreover have "\<forall>x \<in> set h. \<forall>y \<in> set es2. pair_of x \<le> pair_of y"
      using h later by (auto intro: less_imp_le)
    ultimately show ?thesis
      by (simp add: es sorted_append)
  qed
qed

lemma run_segments_sequential:
  assumes "run_segments settle eqn timing segs now frames = (es, res)"
    and "sorted_wrt (<) (map s_pair segs)"
  shows "\<forall>n < length es. \<forall>s \<in> set segs. s_pair s < pair_of (es ! n)
           \<longrightarrow> (\<forall>a \<in> set (s_anims s). Settled (s_pair s) (fst a) \<in> set (take n es))"
  using assms
proof (induction segs arbitrary: now frames es res)
  case Nil
  then show ?case by simp
next
  case (Cons s ss)
  from Cons.prems(2) have gt: "\<forall>s' \<in> set ss. s_pair s < s_pair s'"
    and srt: "sorted_wrt (<) (map s_pair ss)"
    by auto
  from run_segments_Cons [OF Cons.prems(1)] obtain h where
    h: "\<forall>e \<in> set h. pair_of e = s_pair s" and
    alt: "(es = h \<and> res = None)
          \<or> (\<exists>now' frames' es2. (\<forall>a \<in> set (s_anims s). Settled (s_pair s) (fst a) \<in> set h)
                \<and> run_segments settle eqn timing ss now' frames' = (es2, res) \<and> es = h @ es2)"
    by blast
  show ?case
  proof (intro allI impI ballI)
    fix n s' a
    assume n: "n < length es" and s': "s' \<in> set (s # ss)"
      and lt: "s_pair s' < pair_of (es ! n)" and a: "a \<in> set (s_anims s')"
    have notin_h: "\<not> n < length h"
    proof
      assume nh: "n < length h"
      then have "es ! n = h ! n"
        using alt by (auto simp: nth_append)
      then have "pair_of (es ! n) = s_pair s"
        using h nh by simp
      with lt s' gt show False by auto
    qed
    with alt n obtain now' frames' es2 where
      settled: "\<forall>a \<in> set (s_anims s). Settled (s_pair s) (fst a) \<in> set h" and
      rs: "run_segments settle eqn timing ss now' frames' = (es2, res)" and es: "es = h @ es2"
      by auto
    note IH = Cons.IH [OF rs srt]
    have n2: "n - length h < length es2"
      using n notin_h es by simp
    have nth: "es ! n = es2 ! (n - length h)"
      using notin_h es by (simp add: nth_append)
    have tk: "take n es = h @ take (n - length h) es2"
      using notin_h es by simp
    show "Settled (s_pair s') (fst a) \<in> set (take n es)"
    proof (cases "s' = s")
      case True
      with settled a show ?thesis by (simp add: tk)
    next
      case False
      with s' have "s' \<in> set ss" by simp
      with IH n2 lt nth a have "Settled (s_pair s') (fst a) \<in> set (take (n - length h) es2)"
        by auto
      then show ?thesis by (simp add: tk)
    qed
  qed
qed

text \<open>
  The run of a sequence on frames that arrive in time completes: the sequence
  \<open>pulse\<close>, sorted, has the pairs \<open>from\<close>, \<open>50%\<close> (500 ms, \<open>x\<close> in common) and \<open>50%\<close>,
  \<open>to\<close> (500 ms, \<open>x\<close> and \<open>y\<close> in common); the second pair is launched in the frame
  in which the first has settled.
\<close>

lemma pulse_plan:
  "KeyFrameAnimationLerp example_conv example_sheets (example_animation ''pulse'')
     = Plan [\<lparr>s_pair = 0, s_ms = 500, s_anims = [(''x'', Num (Fin 0), Num (Fin 4))]\<rparr>,
             \<lparr>s_pair = 1, s_ms = 500,
                s_anims = [(''x'', Num (Fin 4), Num (Fin 10)), (''y'', Num (Fin 1), Num (Fin 5))]\<rparr>]
          (Some 1)"
  by (simp add: example_conv_def example_sheets_def example_animation_def string_defs number_defs
      css_defs keyframe_defs upt_conv_Cons)

lemma pulse_run:
  "run_times 1 example_settle example_eqn ''linear''
     [\<lparr>s_pair = 0, s_ms = 500, s_anims = [(''x'', Num (Fin 0), Num (Fin 4))]\<rparr>,
      \<lparr>s_pair = 1, s_ms = 500,
         s_anims = [(''x'', Num (Fin 4), Num (Fin 10)), (''y'', Num (Fin 1), Num (Fin 5))]\<rparr>]
     0 [250, 500, 750, 1000]
   = ([Launched 0 ''x'', Exchange 0 ''x'' (Num (Fin 2)), Exchange 0 ''x'' (Num (Fin 4)),
       Settled 0 ''x'',
       Launched 1 ''x'', Launched 1 ''y'',
       Exchange 1 ''x'' (Num (Fin 7)), Exchange 1 ''y'' (Num (Fin 3)),
       Exchange 1 ''x'' (Num (Fin 10)), Settled 1 ''x'', Exchange 1 ''y'' (Num (Fin 5)),
       Settled 1 ''y''],
      Some (1000, []))"
  by (simp add: example_eqn_def animateLerp_def isAnimatable_def resolveValue_def step_def Let_def
      call_def lerpValue_def jsub_def)

text \<open>
  A pair of keyframes at the same resolved time is skipped by the guard
  \<open>if (segmentMs <= 0) continue\<close>: the sequence \<open>twin\<close> has one pair, with the property
  \<open>x\<close> in both frames, and nothing to run.
\<close>

lemma twin_plan:
  "KeyFrameAnimationLerp example_conv example_sheets (example_animation ''twin'') = Plan [] (Some 1)"
  by (simp add: example_conv_def example_sheets_def example_animation_def string_defs number_defs
      css_defs keyframe_defs upt_conv_Cons)

text \<open>
  Claim C2 at the sequence \<open>@keyframes grow { from { --constructor: 1; --x: 0 } to {
  --x: 10 } }\<close>, run over 1000 ms. The property \<open>constructor\<close> is declared in the first
  frame only, so by the claim it is skipped for the pair. But the keys of the pair
  are the keys of the first frame's table that are \<open>in\<close> the second frame's table, a
  plain object, which inherits \<open>constructor\<close> (and eleven more names) from
  \<open>Object.prototype\<close>: the pair has two animations, and the run launches \<open>animateLerp\<close>
  for \<open>constructor\<close>, from 1 to the inherited function, which resolves at once with
  an update that hands the function to \<open>exchange_rule\<close>.
\<close>

theorem keyframe_inherited_property:
  "''--constructor'' \<in> fst ` set [(''--constructor'', ''1''), (''--x'', ''0'')]
   \<and> ''--constructor'' \<notin> fst ` set [(''--x'', ''10'')]
   \<and> getAnimationMap example_sheets ''grow''
       = Some [\<lparr>keyText = ''from'', kstyle = [(''--constructor'', ''1''), (''--x'', ''0'')]\<rparr>,
               \<lparr>keyText = ''to'', kstyle = [(''--x'', ''10'')]\<rparr>]
   \<and> KeyFrameAnimationLerp example_conv example_sheets (example_animation ''grow'')
       = Plan [\<lparr>s_pair = 0, s_ms = 1000,
                 s_anims = [(''constructor'', Num (Fin 1), Ref 1000),
                            (''x'', Num (Fin 0), Num (Fin 10))]\<rparr>] (Some 1)
   \<and> run_times 1 example_settle example_eqn ''linear''
        [\<lparr>s_pair = 0, s_ms = 1000,
           s_anims = [(''constructor'', Num (Fin 1), Ref 1000), (''x'', Num (Fin 0), Num (Fin 10))]\<rparr>]
        0 [500, 1000]
       = ([Launched 0 ''constructor'', Exchange 0 ''constructor'' (Ref 1000),
           Settled 0 ''constructor'',
           Launched 0 ''x'', Exchange 0 ''x'' (Num (Fin 5)), Exchange 0 ''x'' (Num (Fin 10)),
           Settled 0 ''x''],
          Some (1000, []))"
proof -
  have kf: "getAnimationMap example_sheets ''grow''
       = Some [\<lparr>keyText = ''from'', kstyle = [(''--constructor'', ''1''), (''--x'', ''0'')]\<rparr>,
               \<lparr>keyText = ''to'', kstyle = [(''--x'', ''10'')]\<rparr>]"
    by (simp add: example_sheets_def css_defs)
  have plan: "KeyFrameAnimationLerp example_conv example_sheets (example_animation ''grow'')
       = Plan [\<lparr>s_pair = 0, s_ms = 1000,
                 s_anims = [(''constructor'', Num (Fin 1), Ref 1000),
                            (''x'', Num (Fin 0), Num (Fin 10))]\<rparr>] (Some 1)"
    by (simp add: example_conv_def example_sheets_def example_animation_def string_defs number_defs
        css_defs keyframe_defs upt_conv_Cons)
  have run: "run_times 1 example_settle example_eqn ''linear''
        [\<lparr>s_pair = 0, s_ms = 1000,
           s_anims = [(''constructor'', Num (Fin 1), Ref 1000), (''x'', Num (Fin 0), Num (Fin 10))]\<rparr>]
        0 [500, 1000]
       = ([Launched 0 ''constructor'', Exchange 0 ''constructor'' (Ref 1000),
           Settled 0 ''constructor'',
           Launched 0 ''x'', Exchange 0 ''x'' (Num (Fin 5)), Exchange 0 ''x'' (Num (Fin 10)),
           Settled 0 ''x''],
          Some (1000, []))"
    by (simp add: example_eqn_def animateLerp_def isAnimatable_def resolveValue_def step_def Let_def
        call_def lerpValue_def jsub_def finishInstant_def)
  show ?thesis
    using kf plan run by simp
qed

section \<open>Painting a declared property\<close>













section \<open>The picking layer\<close>

lemma layers_test_enable: "layers_test (layers_enable m 3) raycaster_layers"
proof -
  have "bit (layers_enable m 3 AND raycaster_layers) 3"
    by (simp add: layers_enable_def raycaster_layers_def layers_set_def bit_simps)
  then have "layers_enable m 3 AND raycaster_layers \<noteq> 0"
    by (metis bit_0_eq bot_apply bot_bool_def)
  then show ?thesis
    by (simp add: layers_test_def)
qed

lemma layers_test_disable: "\<not> layers_test (layers_disable m 3) raycaster_layers"
proof -
  have "layers_disable m 3 AND raycaster_layers = 0"
    by (rule bit_eqI) (auto simp: layers_disable_def raycaster_layers_def layers_set_def bit_simps)
  then show ?thesis
    by (simp add: layers_test_def)
qed

lemma set_picking_layer_iff:
  "layers_test (n_layers (set_picking_layer sheets object)) raycaster_layers
     \<longleftrightarrow> picking_condition sheets object"
  by (simp add: set_picking_layer_def layers_test_enable layers_test_disable)

lemma apply_props_layers:
  "n_layers (fst (apply_props now conv places st object)) = n_layers object"
  by (induction now conv places st object rule: apply_props.induct)
    (auto split: prod.splits)

lemma apply_rule_layers:
  "layers_test (n_layers (fst (apply_rule sheets now conv places st object))) raycaster_layers
     \<longleftrightarrow> picking_condition sheets object"
proof -
  have "n_layers (fst (apply_rule sheets now conv places st object))
      = n_layers (fst (apply_props now conv places st (set_picking_layer sheets object)))"
    by (simp add: apply_rule_def split: prod.splits option.splits)
  then show ?thesis
    by (simp add: apply_props_layers set_picking_layer_iff)
qed

lemma intersectObjects_pickable:
  assumes "(ob, d) \<in> set (intersectObjects layers_of distance objects)"
  shows "layers_test (layers_of ob) raycaster_layers"
  using assms by (auto simp: intersectObjects_def split: if_splits option.splits)

text \<open>
  Claim C6 at a node whose source element declares \<open>onmouseenter\<close> only, painted with
  the rule \<open>.a { --position-x: 1 }\<close> under a stylesheet with no hover or focus rule:
  NoScope.js dispatches to the \<open>onmouseenter\<close> and \<open>onmouseleave\<close> handlers of a hit
  node, but the paint takes the node off the picking layer, so the ray caster never
  returns it, whatever the geometry.
\<close>

theorem picking_layer_enter_handler:
  "''onmouseenter'' \<in> set dispatched_handlers
   \<and> layers_test
        (n_layers (fst (apply_rule [Some [StyleRule ''.a'' [(''--position-x'', ''1'')]]] 0
           (CSSValueTo3JSValue (\<lambda>n. Null) (\<lambda>p. Undefined)) (\<lambda>p. plain_place (Num (Fin 0)))
           [(''--position-x'', ''1'')]
           \<lparr>n_classList = [''a''], n_name = ''a'', n_domId = [], n_attrs = [''onmouseenter''],
             n_layers = 1, n_transition = None, n_animation = None, n_animationRunning = False\<rparr>)))
        raycaster_layers = False
   \<and> intersectObjects
        (\<lambda>ob. n_layers (fst (apply_rule [Some [StyleRule ''.a'' [(''--position-x'', ''1'')]]] 0
           (CSSValueTo3JSValue (\<lambda>n. Null) (\<lambda>p. Undefined)) (\<lambda>p. plain_place (Num (Fin 0)))
           [(''--position-x'', ''1'')]
           \<lparr>n_classList = [''a''], n_name = ''a'', n_domId = [], n_attrs = [''onmouseenter''],
             n_layers = 1, n_transition = None, n_animation = None, n_animationRunning = False\<rparr>)))
        (\<lambda>ob. Some 1) [0::nat] = []"
proof -
  have cond: "\<not> picking_condition [Some [StyleRule ''.a'' [(''--position-x'', ''1'')]]]
      \<lparr>n_classList = [''a''], n_name = ''a'', n_domId = [], n_attrs = [''onmouseenter''],
        n_layers = 1, n_transition = None, n_animation = None, n_animationRunning = False\<rparr>"
    by (simp add: picking_condition_def hasClassPseudoRule_def getObjectClassSelectors_def
        css_defs string_defs)
  then show ?thesis
    by (simp add: apply_rule_layers intersectObjects_def dispatched_handlers_def)
qed

section \<open>The asset cache: loads in flight and failed loads\<close>

lemma gatherAssetRules_present:
  assumes "assetMap st name = Some e"
  shows "assetMap (gatherAssetRules decls st) name = Some e
    \<and> loads_for name (gatherAssetRules decls st) = loads_for name st"
  using assms
proof (induction decls arbitrary: st rule: rev_induct)
  case Nil
  then show ?case by (simp add: gatherAssetRules_def)
next
  case (snoc d decls)
  obtain n u where d: "d = (n, u)" by (cases d)
  from snoc have IH: "assetMap (gatherAssetRules decls st) name = Some e"
    "loads_for name (gatherAssetRules decls st) = loads_for name st"
    by simp_all
  have step: "gatherAssetRules (decls @ [d]) st =
      (if assetMap (gatherAssetRules decls st) n = None
       then storeAssetLoad n u (gatherAssetRules decls st) else gatherAssetRules decls st)"
    by (simp add: gatherAssetRules_def d)
  show ?case
  proof (cases "assetMap (gatherAssetRules decls st) n = None")
    case True
    with IH have "n \<noteq> name" by auto
    with True IH step show ?thesis
      by (simp add: storeAssetLoad_def loads_for_def)
  next
    case False
    with IH step show ?thesis by simp
  qed
qed

lemma gatherAssetRules_loads_grow:
  "\<exists>more. loads (gatherAssetRules decls st) = loads st @ more"
proof (induction decls rule: rev_induct)
  case Nil
  then show ?case by (simp add: gatherAssetRules_def)
next
  case (snoc d decls)
  then obtain more where more: "loads (gatherAssetRules decls st) = loads st @ more" ..
  obtain n u where d: "d = (n, u)" by (cases d)
  have "gatherAssetRules (decls @ [d]) st =
      (if assetMap (gatherAssetRules decls st) n = None
       then storeAssetLoad n u (gatherAssetRules decls st) else gatherAssetRules decls st)"
    by (simp add: gatherAssetRules_def d)
  with more show ?case
    by (auto simp: storeAssetLoad_def)
qed

lemma gatherAssetRules_absent:
  assumes "assetMap (gatherAssetRules decls st) name = None"
  shows "name \<notin> fst ` set decls"
  using assms
proof (induction decls rule: rev_induct)
  case Nil
  then show ?case by simp
next
  case (snoc d decls)
  obtain n u where d: "d = (n, u)" by (cases d)
  have step: "gatherAssetRules (decls @ [d]) st =
      (if assetMap (gatherAssetRules decls st) n = None
       then storeAssetLoad n u (gatherAssetRules decls st) else gatherAssetRules decls st)"
    by (simp add: gatherAssetRules_def d)
  show ?case
  proof (cases "assetMap (gatherAssetRules decls st) n = None")
    case True
    with snoc.prems step have "n \<noteq> name" and "assetMap (gatherAssetRules decls st) name = None"
      by (auto simp: storeAssetLoad_def split: if_splits)
    with snoc.IH d show ?thesis by simp
  next
    case False
    with snoc.prems step have "assetMap (gatherAssetRules decls st) name = None" and "n \<noteq> name"
      by auto
    with snoc.IH d show ?thesis by simp
  qed
qed

lemma gatherAssetRules_entry:
  assumes "assetMap st name = None" and "assetMap (gatherAssetRules decls st) name = Some e"
  shows "\<exists>j. e = Pending j \<and> length (loads st) \<le> j \<and> j < length (loads (gatherAssetRules decls st))
    \<and> fst (loads (gatherAssetRules decls st) ! j) = name"
  using assms(2)
proof (induction decls arbitrary: e rule: rev_induct)
  case Nil
  with assms(1) show ?case by (simp add: gatherAssetRules_def)
next
  case (snoc d decls)
  obtain n u where d: "d = (n, u)" by (cases d)
  let ?s = "gatherAssetRules decls st"
  have step: "gatherAssetRules (decls @ [d]) st =
      (if assetMap ?s n = None then storeAssetLoad n u ?s else ?s)"
    by (simp add: gatherAssetRules_def d)
  have len: "length (loads st) \<le> length (loads ?s)"
    using gatherAssetRules_loads_grow [of decls st] by auto
  show ?case
  proof (cases "assetMap ?s n = None \<and> n = name")
    case True
    then have "assetMap ?s name = None" and "n = name"
      by blast+
    with step have new: "gatherAssetRules (decls @ [d]) st = storeAssetLoad name u ?s"
      by simp
    with snoc.prems have "e = Pending (length (loads ?s))"
      by (simp add: storeAssetLoad_def)
    moreover have "length (loads ?s) < length (loads (storeAssetLoad name u ?s))"
      and "fst (loads (storeAssetLoad name u ?s) ! length (loads ?s)) = name"
      by (simp_all add: storeAssetLoad_def)
    ultimately show ?thesis
      unfolding new using len by blast
  next
    case False
    with snoc.prems step have "assetMap ?s name = Some e"
      by (auto simp: storeAssetLoad_def split: if_splits)
    from snoc.IH [OF this] obtain j where j: "e = Pending j" "length (loads st) \<le> j"
      "j < length (loads ?s)" "fst (loads ?s ! j) = name"
      by blast
    have "j < length (loads (gatherAssetRules (decls @ [d]) st))"
      and "fst (loads (gatherAssetRules (decls @ [d]) st) ! j) = name"
      using j(3,4) by (simp_all add: step storeAssetLoad_def nth_append)
    with j(1,2) show ?thesis
      by blast
  qed
qed

lemma seed_builtins_present:
  assumes "assetMap st name = Some e"
  shows "seed_builtins st = st"
  using assms by (auto simp: seed_builtins_def)

lemma seed_builtins_loads: "loads (seed_builtins st) = loads st"
  by (simp add: seed_builtins_def storeAssetValue_def)

lemma seed_builtins_entry:
  assumes "assetMap (seed_builtins st) name = Some e" and "assetMap st name = None"
  shows "\<exists>v. e = Value v"
  using assms by (auto simp: seed_builtins_def storeAssetValue_def split: if_splits)

lemma getAsset_in_flight:
  assumes "assetMap st name = Some (Pending i)"
  shows "fst (getAsset decls name path st) = Some (Pending i)"
    and "assetMap (snd (getAsset decls name path st)) name = Some (Pending i)"
    and "loads_for name (snd (getAsset decls name path st)) = loads_for name st"
  using gatherAssetRules_present [of st name "Pending i" decls] assms
  by (simp_all add: getAsset_def seed_builtins_present [OF assms])

lemma load_failed_evicts:
  assumes "i < length (loads st)" and "fst (loads st ! i) = name"
  shows "assetMap (load_failed i st) name = None" and "loads (load_failed i st) = loads st"
  using assms by (simp_all add: load_failed_def)

lemma getAsset_result:
  assumes "fst (getAsset decls name path st) = Some e"
  shows "assetMap (snd (getAsset decls name path st)) name = Some e"
  using assms by (auto simp: getAsset_def Let_def split: if_splits option.splits)

lemma builtins_stored_nonempty:
  assumes "builtins_stored st"
  shows "seed_builtins st = st"
proof -
  from assms have "assetMap st ''cube'' \<noteq> None"
    by (auto simp: builtins_stored_def split: option.splits)
  then have "assetMap st \<noteq> Map.empty"
    by auto
  then show ?thesis
    by (simp add: seed_builtins_def)
qed

lemma load_failed_builtins:
  assumes "builtins_stored st" and "assetMap st name = Some (Pending i)"
    and "fst (loads st ! i) = name"
  shows "builtins_stored (load_failed i st)"
proof -
  from assms(1,2) have "name \<noteq> ''cube''" "name \<noteq> ''sphere''" "name \<noteq> ''plane''" "name \<noteq> ''torus''"
    by (auto simp: builtins_stored_def split: option.splits asset_entry.splits)
  with assms(1,3) show ?thesis
    by (simp add: builtins_stored_def load_failed_def)
qed

lemma getAsset_fresh:
  assumes "assetMap st name = None" and "seed_builtins st = st"
    and "(\<exists>p. path = Some p \<and> p \<noteq> []) \<or> name \<in> fst ` set decls"
  shows "\<exists>j. fst (getAsset decls name path st) = Some (Pending j)
    \<and> length (loads st) \<le> j
    \<and> j < length (loads (snd (getAsset decls name path st)))
    \<and> fst (loads (snd (getAsset decls name path st)) ! j) = name"
proof (cases "assetMap (gatherAssetRules decls st) name")
  case None
  then have "name \<notin> fst ` set decls"
    by (rule gatherAssetRules_absent)
  with assms(3) obtain p where p: "path = Some p" "p \<noteq> []"
    by blast
  have len: "length (loads st) \<le> length (loads (gatherAssetRules decls st))"
    using gatherAssetRules_loads_grow [of decls st] by auto
  have "fst (getAsset decls name path st) = Some (Pending (length (loads (gatherAssetRules decls st))))"
    and "length (loads (gatherAssetRules decls st)) < length (loads (snd (getAsset decls name path st)))"
    and "fst (loads (snd (getAsset decls name path st)) ! length (loads (gatherAssetRules decls st))) = name"
    using None p assms(2) by (simp_all add: getAsset_def Let_def storeAssetLoad_def)
  with len show ?thesis
    by blast
next
  case (Some e)
  from gatherAssetRules_entry [OF assms(1) Some] Some assms(2) show ?thesis
    by (auto simp: getAsset_def Let_def)
qed

lemma gatherAssetRules_other:
  assumes "name \<notin> fst ` set decls"
  shows "assetMap (gatherAssetRules decls st) name = assetMap st name
    \<and> loads_for name (gatherAssetRules decls st) = loads_for name st"
  using assms
proof (induction decls rule: rev_induct)
  case Nil
  then show ?case by (simp add: gatherAssetRules_def)
next
  case (snoc d decls)
  obtain n u where d: "d = (n, u)" by (cases d)
  have step: "gatherAssetRules (decls @ [d]) st =
      (if assetMap (gatherAssetRules decls st) n = None
       then storeAssetLoad n u (gatherAssetRules decls st) else gatherAssetRules decls st)"
    by (simp add: gatherAssetRules_def d)
  from snoc.prems d have "n \<noteq> name" and "name \<notin> fst ` set decls"
    by auto
  with snoc.IH step show ?case
    by (simp add: storeAssetLoad_def loads_for_def)
qed

lemma getAsset_no_source:
  assumes "assetMap st name = None" and "seed_builtins st = st"
    and "path = None \<or> path = Some []" and "name \<notin> fst ` set decls"
  shows "fst (getAsset decls name path st) = None
    \<and> assetMap (snd (getAsset decls name path st)) name = None
    \<and> loads_for name (snd (getAsset decls name path st)) = loads_for name st"
  using assms gatherAssetRules_other [OF assms(4), of st]
  by (auto simp: getAsset_def Let_def)

lemma getAsset_in_flight_and_failure:
  "(assetMap st name = Some (Pending i) \<longrightarrow>
      fst (getAsset decls name path st) = Some (Pending i)
      \<and> assetMap (snd (getAsset decls name path st)) name = Some (Pending i)
      \<and> loads_for name (snd (getAsset decls name path st)) = loads_for name st)
   \<and> (fst (getAsset decls name path st) = Some (Pending i) \<longrightarrow>
      fst (getAsset decls' name path' (snd (getAsset decls name path st))) = Some (Pending i)
      \<and> loads_for name (snd (getAsset decls' name path' (snd (getAsset decls name path st))))
          = loads_for name (snd (getAsset decls name path st)))
   \<and> (builtins_stored st \<and> assetMap st name = Some (Pending i)
        \<and> i < length (loads st) \<and> fst (loads st ! i) = name \<longrightarrow>
      assetMap (load_failed i st) name = None
      \<and> ((\<exists>p. path = Some p \<and> p \<noteq> []) \<or> name \<in> fst ` set decls \<longrightarrow>
           (\<exists>j. fst (getAsset decls name path (load_failed i st)) = Some (Pending j)
              \<and> i < j \<and> length (loads st) \<le> j
              \<and> j < length (loads (snd (getAsset decls name path (load_failed i st))))
              \<and> fst (loads (snd (getAsset decls name path (load_failed i st))) ! j) = name)))"
proof (intro conjI impI)
  assume "assetMap st name = Some (Pending i)"
  then show "fst (getAsset decls name path st) = Some (Pending i)"
    and "assetMap (snd (getAsset decls name path st)) name = Some (Pending i)"
    and "loads_for name (snd (getAsset decls name path st)) = loads_for name st"
    by (rule getAsset_in_flight)+
next
  assume "fst (getAsset decls name path st) = Some (Pending i)"
  then have "assetMap (snd (getAsset decls name path st)) name = Some (Pending i)"
    by (rule getAsset_result)
  then show "fst (getAsset decls' name path' (snd (getAsset decls name path st))) = Some (Pending i)"
    and "loads_for name (snd (getAsset decls' name path' (snd (getAsset decls name path st))))
          = loads_for name (snd (getAsset decls name path st))"
    by (rule getAsset_in_flight)+
next
  assume a: "builtins_stored st \<and> assetMap st name = Some (Pending i)
        \<and> i < length (loads st) \<and> fst (loads st ! i) = name"
  then show evicted: "assetMap (load_failed i st) name = None"
    by (simp add: load_failed_evicts)
  assume src: "(\<exists>p. path = Some p \<and> p \<noteq> []) \<or> name \<in> fst ` set decls"
  from a have "builtins_stored (load_failed i st)"
    using load_failed_builtins [of st name i] by blast
  then have "seed_builtins (load_failed i st) = load_failed i st"
    by (rule builtins_stored_nonempty)
  from getAsset_fresh [OF evicted this src] obtain j where
    j: "fst (getAsset decls name path (load_failed i st)) = Some (Pending j)"
      "length (loads (load_failed i st)) \<le> j"
      "j < length (loads (snd (getAsset decls name path (load_failed i st))))"
      "fst (loads (snd (getAsset decls name path (load_failed i st))) ! j) = name"
    by blast
  from a j(2) have "i < j" "length (loads st) \<le> j"
    by (simp_all add: load_failed_def)
  with j show "\<exists>j. fst (getAsset decls name path (load_failed i st)) = Some (Pending j)
              \<and> i < j \<and> length (loads st) \<le> j
              \<and> j < length (loads (snd (getAsset decls name path (load_failed i st))))
              \<and> fst (loads (snd (getAsset decls name path (load_failed i st))) ! j) = name"
    by blast
qed


text \<open>
  Claim C7, as stated, fails in its last part: after the load of \<open>ship\<close> has failed and
  its entry has been evicted, the request \<open>getAsset('ship')\<close>, which supplies no path
  (as the request \<open>CSSValueTo3JSValue\<close> makes for \<open>@ship\<close>), finds no asset rule for the
  name either: it returns \<open>null\<close> and issues no load.
\<close>

theorem asset_cache_counterexample:
  "fst (getAsset [] ''ship'' (Some ''./ship.glb'') \<lparr>assetMap = Map.empty, loads = []\<rparr>) = Some (Pending 0)
   \<and> assetMap (load_failed 0
        (snd (getAsset [] ''ship'' (Some ''./ship.glb'') \<lparr>assetMap = Map.empty, loads = []\<rparr>))) ''ship''
      = None
   \<and> fst (getAsset [] ''ship'' None (load_failed 0
        (snd (getAsset [] ''ship'' (Some ''./ship.glb'') \<lparr>assetMap = Map.empty, loads = []\<rparr>))))
      = None
   \<and> loads (snd (getAsset [] ''ship'' None (load_failed 0
        (snd (getAsset [] ''ship'' (Some ''./ship.glb'') \<lparr>assetMap = Map.empty, loads = []\<rparr>)))))
      = [(''ship'', ''./ship.glb'')]"
  by (simp add: asset_defs)

text \<open>
  Claim C7, amended. For every asset name and every state of the cache: while the map
  holds the pending promise of a load for the name, a request returns that same
  promise, leaves it in the map and issues no load for the name; consequently a second
  request made after a first one that returned a pending promise returns the same
  promise and issues no further load for the name. When the load in flight for the
  name fails (the built-ins being stored), the name is evicted; a subsequent request
  for the name that has a source to load from (a non-empty path, or an asset rule of
  that name) issues a fresh load: it returns the pending promise of a load issued
  after all earlier ones, stored under the name; a subsequent request with no source
  (no path or an empty one, and no asset rule of that name) returns \<open>null\<close>, leaves the
  name out of the map and issues no load for it.
\<close>

theorem asset_cache_in_flight_and_failure:
  "(assetMap st name = Some (Pending i) \<longrightarrow>
      fst (getAsset decls name path st) = Some (Pending i)
      \<and> assetMap (snd (getAsset decls name path st)) name = Some (Pending i)
      \<and> loads_for name (snd (getAsset decls name path st)) = loads_for name st)
   \<and> (fst (getAsset decls name path st) = Some (Pending i) \<longrightarrow>
      fst (getAsset decls' name path' (snd (getAsset decls name path st))) = Some (Pending i)
      \<and> loads_for name (snd (getAsset decls' name path' (snd (getAsset decls name path st))))
          = loads_for name (snd (getAsset decls name path st)))
   \<and> (builtins_stored st \<and> assetMap st name = Some (Pending i)
        \<and> i < length (loads st) \<and> fst (loads st ! i) = name \<longrightarrow>
      assetMap (load_failed i st) name = None
      \<and> ((\<exists>p. path = Some p \<and> p \<noteq> []) \<or> name \<in> fst ` set decls \<longrightarrow>
           (\<exists>j. fst (getAsset decls name path (load_failed i st)) = Some (Pending j)
              \<and> i < j \<and> length (loads st) \<le> j
              \<and> j < length (loads (snd (getAsset decls name path (load_failed i st))))
              \<and> fst (loads (snd (getAsset decls name path (load_failed i st))) ! j) = name)))
   \<and> (builtins_stored st \<and> assetMap st name = Some (Pending i)
        \<and> i < length (loads st) \<and> fst (loads st ! i) = name
        \<and> (path = None \<or> path = Some []) \<and> name \<notin> fst ` set decls \<longrightarrow>
      fst (getAsset decls name path (load_failed i st)) = None
      \<and> assetMap (snd (getAsset decls name path (load_failed i st))) name = None
      \<and> loads_for name (snd (getAsset decls name path (load_failed i st))) = loads_for name st)"
proof -
  have no_source: "fst (getAsset decls name path (load_failed i st)) = None
      \<and> assetMap (snd (getAsset decls name path (load_failed i st))) name = None
      \<and> loads_for name (snd (getAsset decls name path (load_failed i st))) = loads_for name st"
    if a: "builtins_stored st" "assetMap st name = Some (Pending i)" "i < length (loads st)"
      "fst (loads st ! i) = name" and src: "path = None \<or> path = Some []" "name \<notin> fst ` set decls"
  proof -
    have evicted: "assetMap (load_failed i st) name = None"
      and same: "loads (load_failed i st) = loads st"
      using a(3,4) by (rule load_failed_evicts)+
    have "builtins_stored (load_failed i st)"
      using a(1,2,4) by (rule load_failed_builtins)
    then have "seed_builtins (load_failed i st) = load_failed i st"
      by (rule builtins_stored_nonempty)
    from getAsset_no_source [OF evicted this src] same show ?thesis
      by (simp add: loads_for_def)
  qed
  have new: "builtins_stored st \<and> assetMap st name = Some (Pending i)
        \<and> i < length (loads st) \<and> fst (loads st ! i) = name
        \<and> (path = None \<or> path = Some []) \<and> name \<notin> fst ` set decls \<longrightarrow>
      fst (getAsset decls name path (load_failed i st)) = None
      \<and> assetMap (snd (getAsset decls name path (load_failed i st))) name = None
      \<and> loads_for name (snd (getAsset decls name path (load_failed i st))) = loads_for name st"
    by (intro impI; elim conjE; rule no_source; assumption)
  note old = getAsset_in_flight_and_failure [of st name i decls path decls' path']
  show ?thesis
    by (intro conjI;
        (rule old [THEN conjunct1] | rule old [THEN conjunct2, THEN conjunct1]
         | rule old [THEN conjunct2, THEN conjunct2] | rule new))
qed

text \<open>
  The witness: from the empty cache, \<open>getAsset('ship', './ship.glb')\<close> issues load 0 and
  returns its promise; a second request returns the same promise and issues nothing;
  after the load has failed, the same request issues load 1.
\<close>

theorem asset_cache_witness:
  "fst (getAsset [] ''ship'' (Some ''./ship.glb'') \<lparr>assetMap = Map.empty, loads = []\<rparr>) = Some (Pending 0)
   \<and> fst (getAsset [] ''ship'' None
        (snd (getAsset [] ''ship'' (Some ''./ship.glb'') \<lparr>assetMap = Map.empty, loads = []\<rparr>)))
      = Some (Pending 0)
   \<and> loads_for ''ship'' (snd (getAsset [] ''ship'' None
        (snd (getAsset [] ''ship'' (Some ''./ship.glb'') \<lparr>assetMap = Map.empty, loads = []\<rparr>))))
      = [(''ship'', ''./ship.glb'')]
   \<and> assetMap (load_failed 0
        (snd (getAsset [] ''ship'' (Some ''./ship.glb'') \<lparr>assetMap = Map.empty, loads = []\<rparr>))) ''ship''
      = None
   \<and> fst (getAsset [] ''ship'' (Some ''./ship.glb'') (load_failed 0
        (snd (getAsset [] ''ship'' (Some ''./ship.glb'') \<lparr>assetMap = Map.empty, loads = []\<rparr>))))
      = Some (Pending 1)"
proof -
  let ?st0 = "\<lparr>assetMap = Map.empty, loads = []\<rparr>"
  let ?st1 = "snd (getAsset [] ''ship'' (Some ''./ship.glb'') ?st0)"
  have first: "fst (getAsset [] ''ship'' (Some ''./ship.glb'') ?st0) = Some (Pending 0)"
    by (simp add: asset_defs)
  have st1: "builtins_stored ?st1 \<and> assetMap ?st1 ''ship'' = Some (Pending 0)
      \<and> 0 < length (loads ?st1) \<and> fst (loads ?st1 ! 0) = ''ship''"
    by (simp add: asset_defs builtins_stored_def)
  have loaded: "loads_for ''ship'' ?st1 = [(''ship'', ''./ship.glb'')]"
    by (simp add: asset_defs)
  have len: "length (loads (snd (getAsset [] ''ship'' (Some ''./ship.glb'') (load_failed 0 ?st1)))) = 2"
    by (simp add: asset_defs)
  from asset_cache_in_flight_and_failure [where st = ?st0 and name = "''ship''" and i = 0
      and decls = "[]" and path = "Some ''./ship.glb''" and decls' = "[]" and path' = None]
    first loaded
  have second: "fst (getAsset [] ''ship'' None ?st1) = Some (Pending 0)"
    "loads_for ''ship'' (snd (getAsset [] ''ship'' None ?st1)) = [(''ship'', ''./ship.glb'')]"
    by simp_all
  from asset_cache_in_flight_and_failure [where st = ?st1 and name = "''ship''" and i = 0
      and decls = "[]" and path = "Some ''./ship.glb''" and decls' = "[]" and path' = None] st1
  have evicted: "assetMap (load_failed 0 ?st1) ''ship'' = None"
    and "\<exists>j. fst (getAsset [] ''ship'' (Some ''./ship.glb'') (load_failed 0 ?st1)) = Some (Pending j)
      \<and> 0 < j \<and> j < length (loads (snd (getAsset [] ''ship'' (Some ''./ship.glb'') (load_failed 0 ?st1))))"
    by auto
  then obtain j where "fst (getAsset [] ''ship'' (Some ''./ship.glb'') (load_failed 0 ?st1)) = Some (Pending j)"
    "0 < j" "j < 2"
    using len by auto
  moreover from this have "j = 1" by simp
  ultimately have fresh: "fst (getAsset [] ''ship'' (Some ''./ship.glb'') (load_failed 0 ?st1)) = Some (Pending 1)"
    by simp
  from first second evicted fresh show ?thesis
    by simp
qed

section \<open>fastRemove_arry removes the item\<close>

lemma index_of_Some:
  "index_of xs x = Some i \<Longrightarrow> i < length xs \<and> xs ! i = x"
  by (induction xs arbitrary: i) (auto split: if_splits)

lemma index_of_None: "index_of xs x = None \<longleftrightarrow> x \<notin> set xs"
  by (induction xs) auto

lemma fastRemove_arry_alt:
  "fastRemove_arry xs x =
    (case index_of xs x of None \<Rightarrow> xs
     | Some i \<Rightarrow> if i = length xs - 1 then butlast xs else (butlast xs)[i := last xs])"
  by (simp add: fastRemove_arry_def butlast_list_update split: option.splits)

lemma fastRemove_arry_distinct:
  assumes "distinct xs"
  shows "distinct (fastRemove_arry xs x) \<and> set (fastRemove_arry xs x) = set xs - {x}"
proof (cases "index_of xs x")
  case None
  then have "x \<notin> set xs" by (simp add: index_of_None)
  with None assms show ?thesis by (simp add: fastRemove_arry_alt)
next
  case (Some i)
  then have i: "i < length xs" "xs ! i = x"
    by (simp_all add: index_of_Some)
  then have ne: "xs \<noteq> []" by auto
  then have xs: "xs = butlast xs @ [last xs]" by simp
  have dl: "distinct (butlast xs)" "last xs \<notin> set (butlast xs)"
    using assms xs by (metis distinct_butlast, metis distinct1_rotate not_distinct_conv_prefix rotate1.simps(2) xs distinct.simps(2) assms)
  show ?thesis
  proof (cases "i = length xs - 1")
    case True
    then have "x = last xs" using i ne by (simp add: last_conv_nth)
    then have "set (butlast xs) = set xs - {x}"
      using dl xs by (metis Diff_insert_absorb Un_insert_right append_Nil2 list.simps(15) set_append)
    with True Some dl show ?thesis by (simp add: fastRemove_arry_alt)
  next
    case False
    then have ib: "i < length (butlast xs)" using i by simp
    then have bi: "butlast xs ! i = x" using i by (simp add: nth_butlast)
    have "distinct ((butlast xs)[i := last xs])"
      using dl by (simp add: distinct_list_update)
    moreover have "set ((butlast xs)[i := last xs]) = insert (last xs) (set (butlast xs) - {x})"
      using dl ib bi by (simp add: set_update_distinct)
    moreover have "insert (last xs) (set (butlast xs) - {x}) = set xs - {x}"
    proof -
      have "x \<in> set (butlast xs)"
        using ib bi by (metis nth_mem)
      with dl(2) have "last xs \<noteq> x" by blast
      moreover have "set xs = insert (last xs) (set (butlast xs))"
        by (subst xs) simp
      ultimately show ?thesis by auto
    qed
    ultimately show ?thesis using False Some by (simp add: fastRemove_arry_alt)
  qed
qed

section \<open>Pointer move: leave, enter, hover\<close>

lemma delFlag_hover:
  assumes "distinct flags"
  shows "'':hover'' \<notin> set (delFlag flags '':hover'')" and "distinct (delFlag flags '':hover'')"
  using fastRemove_arry_distinct [OF assms, of "'':hover''"] by (simp_all add: delFlag_def)

lemma addFlag_hover: "'':hover'' \<in> set (addFlag flags '':hover'')"
  by (simp add: addFlag_def)

lemma addFlag_distinct: "distinct flags \<Longrightarrow> distinct (addFlag flags f)"
  by (simp add: addFlag_def)

lemma pointerMove_new_hit:
  assumes "focusedCamera cell" and "last_cast_caught cell = Some l" and "l \<noteq> h"
  shows "pointerMove ((h, pt) # rest) cell =
    (cell\<lparr>extraParams := (extraParams cell)
         (l := delFlag (extraParams cell l) '':hover'',
          h := addFlag (extraParams cell h) '':hover''),
       last_cast_caught := Some h, lastHitPosition := Some pt\<rparr>,
     (if ''onmouseleave'' \<in> set (handlers cell l)
      then [Fired ''cellmouseleave'' l (lastHitPosition cell) (delFlag (extraParams cell l) '':hover'')]
      else [])
     @ [PaintSpecificMuse l]
     @ (if ''onmouseenter'' \<in> set (handlers cell h)
        then [Fired ''cellmouseenter'' h (Some pt) (extraParams cell h)] else [])
     @ (if ''onmouseover'' \<in> set (handlers cell h)
        then [Fired ''cellhover'' h (Some pt) (addFlag (extraParams cell h) '':hover'')] else [])
     @ [PaintExtraCell])"
  using assms by (simp add: pointerMove_def leave_def enter_def hover_def fire_def)

lemma pointerMove_first_hit:
  assumes "focusedCamera cell" and "last_cast_caught cell = None"
  shows "pointerMove ((h, pt) # rest) cell =
    (cell\<lparr>extraParams := (extraParams cell)(h := addFlag (extraParams cell h) '':hover''),
       last_cast_caught := Some h, lastHitPosition := Some pt\<rparr>,
     (if ''onmouseenter'' \<in> set (handlers cell h)
      then [Fired ''cellmouseenter'' h (Some pt) (extraParams cell h)] else [])
     @ (if ''onmouseover'' \<in> set (handlers cell h)
        then [Fired ''cellhover'' h (Some pt) (addFlag (extraParams cell h) '':hover'')] else [])
     @ [PaintExtraCell])"
  using assms by (simp add: pointerMove_def leave_def enter_def hover_def fire_def)

lemma pointerMove_same_hit:
  assumes "focusedCamera cell" and "last_cast_caught cell = Some h"
  shows "pointerMove ((h, pt) # rest) cell =
    (cell\<lparr>extraParams := (extraParams cell)(h := addFlag (extraParams cell h) '':hover''),
       lastHitPosition := Some pt\<rparr>,
     (if ''onmouseover'' \<in> set (handlers cell h)
      then [Fired ''cellhover'' h (Some pt) (addFlag (extraParams cell h) '':hover'')] else [])
     @ [PaintExtraCell])"
  using assms by (simp add: pointerMove_def leave_def enter_def hover_def fire_def)

lemma pointerMove_no_hit:
  assumes "focusedCamera cell" and "last_cast_caught cell = Some l"
  shows "pointerMove [] cell =
    (cell\<lparr>extraParams := (extraParams cell)(l := delFlag (extraParams cell l) '':hover''),
       last_cast_caught := None\<rparr>,
     (if ''onmouseleave'' \<in> set (handlers cell l)
      then [Fired ''cellmouseleave'' l (lastHitPosition cell) (delFlag (extraParams cell l) '':hover'')]
      else [])
     @ [PaintSpecificMuse l])"
  using assms by (simp add: pointerMove_def leave_def enter_def hover_def fire_def)

lemma pointerMove_hover:
  assumes "focusedCamera cell"
  shows "filter (\<lambda>e. event_type e = ''cellhover'') (snd (pointerMove ((h, pt) # rest) cell))
      = (if ''onmouseover'' \<in> set (handlers cell h)
         then [Fired ''cellhover'' h (Some pt) (addFlag (extraParams cell h) '':hover'')] else [])"
proof (cases "last_cast_caught cell")
  case None
  then show ?thesis
    by (simp add: pointerMove_first_hit [OF assms])
next
  case (Some l)
  then show ?thesis
    by (cases "l = h") (simp_all add: pointerMove_new_hit [OF assms] pointerMove_same_hit [OF assms])
qed

text \<open>
  Claim C3, as stated, fails in one detail: the enter event is fired before the hover
  flag of the new hit is set. Here node 1 was hit last and carries the flag, node 2 is
  the new hit, and all three handlers are set on both elements: the enter handler is
  called while node 2 has no flag; the flag is there when the hover handler is called.
\<close>

theorem pointerMove_enter_counterexample:
  "snd (pointerMove [(2, (1, 2, 3))]
      \<lparr>focusedCamera = True, last_cast_caught = Some 1, lastHitPosition = Some (0, 0, 0),
        extraParams = (\<lambda>n. [])(1 := ['':hover'']),
        handlers = (\<lambda>n. [''onmouseleave'', ''onmouseenter'', ''onmouseover''])\<rparr>)
   = [Fired ''cellmouseleave'' 1 (Some (0, 0, 0)) [],
      PaintSpecificMuse 1,
      Fired ''cellmouseenter'' 2 (Some (1, 2, 3)) [],
      Fired ''cellhover'' 2 (Some (1, 2, 3)) ['':hover''],
      PaintExtraCell]"
  by (simp add: pointerMove_def leave_def enter_def hover_def fire_def addFlag_def delFlag_def
      fastRemove_arry_def)

text \<open>
  Claim C3, amended. For a pointer move handled with an active camera. When the
  topmost hit \<open>h\<close> differs from the previous hit \<open>l\<close> (whose flags have no
  duplicates, as \<open>addFlag\<close> keeps them): the synthetic events of the move are, in this
  order, one leave event on \<open>l\<close>, one enter event on \<open>h\<close> and one hover event on \<open>h\<close>,
  each delivered if the source element has that handler set; the leave event is fired
  with the hover flag of \<open>l\<close> already cleared, the enter event with the flags \<open>h\<close> had
  before the move (its hover flag is set only after the enter event), the hover event
  with the hover flag of \<open>h\<close> set; after the move \<open>l\<close> is without and \<open>h\<close> is with the
  flag, and \<open>h\<close> is the last hit. Every move with a current hit fires exactly one
  hover event on it. A move from a hit to no hit clears the hover flag of the old hit,
  fires exactly one leave event on it and leaves no last hit.
\<close>

theorem pointerMove_leave_enter_hover:
  assumes "focusedCamera cell"
  shows
    "(last_cast_caught cell = Some l \<and> l \<noteq> h \<and> distinct (extraParams cell l) \<longrightarrow>
        filter is_fired (snd (pointerMove ((h, pt) # rest) cell))
          = (if ''onmouseleave'' \<in> set (handlers cell l)
             then [Fired ''cellmouseleave'' l (lastHitPosition cell)
                     (delFlag (extraParams cell l) '':hover'')] else [])
            @ (if ''onmouseenter'' \<in> set (handlers cell h)
               then [Fired ''cellmouseenter'' h (Some pt) (extraParams cell h)] else [])
            @ (if ''onmouseover'' \<in> set (handlers cell h)
               then [Fired ''cellhover'' h (Some pt) (addFlag (extraParams cell h) '':hover'')] else [])
        \<and> '':hover'' \<notin> set (delFlag (extraParams cell l) '':hover'')
        \<and> '':hover'' \<in> set (addFlag (extraParams cell h) '':hover'')
        \<and> '':hover'' \<notin> set (extraParams (fst (pointerMove ((h, pt) # rest) cell)) l)
        \<and> '':hover'' \<in> set (extraParams (fst (pointerMove ((h, pt) # rest) cell)) h)
        \<and> last_cast_caught (fst (pointerMove ((h, pt) # rest) cell)) = Some h)
     \<and> filter (\<lambda>e. event_type e = ''cellhover'') (snd (pointerMove ((h, pt) # rest) cell))
          = (if ''onmouseover'' \<in> set (handlers cell h)
             then [Fired ''cellhover'' h (Some pt) (addFlag (extraParams cell h) '':hover'')] else [])
     \<and> (last_cast_caught cell = Some l \<and> distinct (extraParams cell l) \<longrightarrow>
          filter is_fired (snd (pointerMove [] cell))
            = (if ''onmouseleave'' \<in> set (handlers cell l)
               then [Fired ''cellmouseleave'' l (lastHitPosition cell)
                       (delFlag (extraParams cell l) '':hover'')] else [])
          \<and> '':hover'' \<notin> set (extraParams (fst (pointerMove [] cell)) l)
          \<and> last_cast_caught (fst (pointerMove [] cell)) = None)"
proof (intro conjI impI)
  assume a: "last_cast_caught cell = Some l \<and> l \<noteq> h \<and> distinct (extraParams cell l)"
  then have l: "last_cast_caught cell = Some l" and lh: "l \<noteq> h" and d: "distinct (extraParams cell l)"
    by simp_all
  note pm = pointerMove_new_hit [OF assms l lh, of pt rest]
  show "filter is_fired (snd (pointerMove ((h, pt) # rest) cell))
          = (if ''onmouseleave'' \<in> set (handlers cell l)
             then [Fired ''cellmouseleave'' l (lastHitPosition cell)
                     (delFlag (extraParams cell l) '':hover'')] else [])
            @ (if ''onmouseenter'' \<in> set (handlers cell h)
               then [Fired ''cellmouseenter'' h (Some pt) (extraParams cell h)] else [])
            @ (if ''onmouseover'' \<in> set (handlers cell h)
               then [Fired ''cellhover'' h (Some pt) (addFlag (extraParams cell h) '':hover'')] else [])"
    by (simp add: pm)
  show "'':hover'' \<notin> set (delFlag (extraParams cell l) '':hover'')"
    using d by (rule delFlag_hover)
  show "'':hover'' \<in> set (addFlag (extraParams cell h) '':hover'')"
    by (rule addFlag_hover)
  show "'':hover'' \<notin> set (extraParams (fst (pointerMove ((h, pt) # rest) cell)) l)"
    using lh delFlag_hover(1) [OF d] by (simp add: pm)
  show "'':hover'' \<in> set (extraParams (fst (pointerMove ((h, pt) # rest) cell)) h)"
    using addFlag_hover by (simp add: pm)
  show "last_cast_caught (fst (pointerMove ((h, pt) # rest) cell)) = Some h"
    by (simp add: pm)
next
  show "filter (\<lambda>e. event_type e = ''cellhover'') (snd (pointerMove ((h, pt) # rest) cell))
          = (if ''onmouseover'' \<in> set (handlers cell h)
             then [Fired ''cellhover'' h (Some pt) (addFlag (extraParams cell h) '':hover'')] else [])"
    by (rule pointerMove_hover [OF assms])
next
  assume a: "last_cast_caught cell = Some l \<and> distinct (extraParams cell l)"
  then have l: "last_cast_caught cell = Some l" and d: "distinct (extraParams cell l)"
    by simp_all
  note pm = pointerMove_no_hit [OF assms l]
  show "filter is_fired (snd (pointerMove [] cell))
            = (if ''onmouseleave'' \<in> set (handlers cell l)
               then [Fired ''cellmouseleave'' l (lastHitPosition cell)
                       (delFlag (extraParams cell l) '':hover'')] else [])"
    by (simp add: pm)
  show "'':hover'' \<notin> set (extraParams (fst (pointerMove [] cell)) l)"
    using delFlag_hover(1) [OF d] by (simp add: pm)
  show "last_cast_caught (fst (pointerMove [] cell)) = None"
    by (simp add: pm)
qed

theorem pointerMove_leave_enter_hover_witness:
  "filter is_fired (snd (pointerMove [(2, (1, 2, 3))]
      \<lparr>focusedCamera = True, last_cast_caught = Some 1, lastHitPosition = Some (0, 0, 0),
        extraParams = (\<lambda>n. [])(1 := ['':hover'']),
        handlers = (\<lambda>n. [''onmouseleave'', ''onmouseenter'', ''onmouseover''])\<rparr>))
   = [Fired ''cellmouseleave'' 1 (Some (0, 0, 0)) (delFlag ['':hover''] '':hover''),
      Fired ''cellmouseenter'' 2 (Some (1, 2, 3)) [],
      Fired ''cellhover'' 2 (Some (1, 2, 3)) (addFlag [] '':hover'')]
   \<and> '':hover'' \<notin> set (delFlag ['':hover''] '':hover'')
   \<and> filter is_fired (snd (pointerMove []
      \<lparr>focusedCamera = True, last_cast_caught = Some 1, lastHitPosition = Some (0, 0, 0),
        extraParams = (\<lambda>n. [])(1 := ['':hover'']),
        handlers = (\<lambda>n. [''onmouseleave'', ''onmouseenter'', ''onmouseover''])\<rparr>))
   = [Fired ''cellmouseleave'' 1 (Some (0, 0, 0)) (delFlag ['':hover''] '':hover'')]"
  using pointerMove_leave_enter_hover [of
      "\<lparr>focusedCamera = True, last_cast_caught = Some 1, lastHitPosition = Some (0, 0, 0),
        extraParams = (\<lambda>n. [])(1 := ['':hover'']),
        handlers = (\<lambda>n. [''onmouseleave'', ''onmouseenter'', ''onmouseover''])\<rparr>"
      1 2 "(1, 2, 3)" "[]"]
  by simp

section \<open>What unregistering one node changes\<close>

lemma unregister_domEl [simp]: "obj_domEl (unregister d st) = obj_domEl st"
  by (simp add: unregister_def object_remove_def split: option.splits)

lemma unregister_arrays [simp]:
  "classyConvicts (unregister d st) = fastRemove_arry (classyConvicts st) d"
  "namedConvicts (unregister d st) = fastRemove_arry (namedConvicts st) d"
  "constantConvicts (unregister d st) = fastRemove_arry (constantConvicts st) d"
  by (simp_all add: unregister_def object_remove_def split: option.splits)

lemma unregister_map:
  "allConvictsByDom (unregister d st) =
    (case obj_domEl st d of None \<Rightarrow> allConvictsByDom st | Some e \<Rightarrow> (allConvictsByDom st)(e := None))"
  by (simp add: unregister_def object_remove_def split: option.splits)

lemma unregister_el_parent:
  "el_parent (unregister d st) =
    (case obj_domEl st d of None \<Rightarrow> el_parent st | Some e \<Rightarrow> (el_parent st)(e := None))"
  by (simp add: unregister_def object_remove_def split: option.splits)

lemma unregister_parent_other: "x \<noteq> d \<Longrightarrow> obj_parent (unregister d st) x = obj_parent st x"
  by (simp add: unregister_def object_remove_def split: option.splits)

lemma unregister_parent_mono:
  "obj_parent (unregister d st) x = Some q \<Longrightarrow> obj_parent st x = Some q"
  by (auto simp: unregister_def object_remove_def split: option.splits if_splits)

lemma unregister_parent_self:
  assumes "\<forall>q. obj_parent st d = Some q \<longrightarrow> d \<in> set (obj_children st q)"
  shows "obj_parent (unregister d st) d = None"
  using assms by (auto simp: unregister_def object_remove_def split: option.splits)

lemma unregister_children:
  "obj_children (unregister d st) q =
    (if obj_parent st d = Some q then remove1 d (obj_children st q) else obj_children st q)"
  by (auto simp: unregister_def object_remove_def remove1_idem split: option.splits)

section \<open>What unregistering a list of nodes changes\<close>

lemma fold_unregister_domEl [simp]: "obj_domEl (fold unregister xs st) = obj_domEl st"
  by (induction xs arbitrary: st) simp_all

lemma fold_unregister_parent_other:
  "x \<notin> set xs \<Longrightarrow> obj_parent (fold unregister xs st) x = obj_parent st x"
  by (induction xs arbitrary: st) (simp_all add: unregister_parent_other)

lemma fold_unregister_parent_mono:
  "obj_parent (fold unregister xs st) x = Some q \<Longrightarrow> obj_parent st x = Some q"
  by (induction xs arbitrary: st) (auto dest: unregister_parent_mono)

lemma fold_unregister_children_other:
  assumes "\<forall>x \<in> set xs. obj_parent st x \<noteq> Some q"
  shows "obj_children (fold unregister xs st) q = obj_children st q"
  using assms
proof (induction xs arbitrary: st)
  case Nil
  then show ?case by simp
next
  case (Cons x xs)
  have "\<forall>y \<in> set xs. obj_parent (unregister x st) y \<noteq> Some q"
    using Cons.prems by (auto dest: unregister_parent_mono)
  then have "obj_children (fold unregister xs (unregister x st)) q = obj_children (unregister x st) q"
    by (rule Cons.IH)
  with Cons.prems show ?case
    by (simp add: unregister_children)
qed

lemma fold_unregister_child_stays:
  assumes "d \<notin> set xs" and "d \<in> set (obj_children st q)"
  shows "d \<in> set (obj_children (fold unregister xs st) q)"
  using assms
proof (induction xs arbitrary: st)
  case Nil
  then show ?case by simp
next
  case (Cons x xs)
  then have "d \<in> set (obj_children (unregister x st) q)"
    by (auto simp: unregister_children)
  with Cons show ?case by simp
qed

lemma fold_unregister_parent_cleared:
  assumes "\<forall>d \<in> set xs. \<forall>q. obj_parent st d = Some q \<longrightarrow> d \<in> set (obj_children st q)"
    and "d \<in> set xs"
  shows "obj_parent (fold unregister xs st) d = None"
  using assms
proof (induction xs arbitrary: st)
  case Nil
  then show ?case by simp
next
  case (Cons x xs)
  have x: "obj_parent (unregister x st) x = None"
    using Cons.prems(1) by (intro unregister_parent_self) simp
  have rest: "\<forall>y \<in> set xs. \<forall>q. obj_parent (unregister x st) y = Some q
      \<longrightarrow> y \<in> set (obj_children (unregister x st) q)"
  proof (intro ballI allI impI)
    fix y q
    assume y: "y \<in> set xs" and p: "obj_parent (unregister x st) y = Some q"
    from p x have "y \<noteq> x" by auto
    moreover from p have "obj_parent st y = Some q"
      by (rule unregister_parent_mono)
    with Cons.prems(1) y have "y \<in> set (obj_children st q)" by simp
    ultimately show "y \<in> set (obj_children (unregister x st) q)"
      by (simp add: unregister_children)
  qed
  show ?case
  proof (cases "d \<in> set xs")
    case True
    with Cons.IH [OF rest] show ?thesis by simp
  next
    case False
    with Cons.prems(2) have "d = x" by simp
    with False x show ?thesis
      by (simp add: fold_unregister_parent_other)
  qed
qed

lemma fold_fastRemove_distinct:
  assumes "distinct ys"
  shows "distinct (fold (\<lambda>d a. fastRemove_arry a d) xs ys)
    \<and> set (fold (\<lambda>d a. fastRemove_arry a d) xs ys) = set ys - set xs"
  using assms
proof (induction xs arbitrary: ys)
  case Nil
  then show ?case by simp
next
  case (Cons x xs)
  from fastRemove_arry_distinct [OF Cons.prems, of x]
  have "distinct (fastRemove_arry ys x)" and s: "set (fastRemove_arry ys x) = set ys - {x}"
    by simp_all
  from Cons.IH [OF this(1)] s show ?case
    by auto
qed

lemma fold_unregister_arrays:
  "classyConvicts (fold unregister xs st) = fold (\<lambda>d a. fastRemove_arry a d) xs (classyConvicts st)"
  "namedConvicts (fold unregister xs st) = fold (\<lambda>d a. fastRemove_arry a d) xs (namedConvicts st)"
  "constantConvicts (fold unregister xs st) = fold (\<lambda>d a. fastRemove_arry a d) xs (constantConvicts st)"
  by (induction xs arbitrary: st) simp_all

lemma fold_unregister_map:
  "allConvictsByDom (fold unregister xs st) e =
    (if \<exists>d \<in> set xs. obj_domEl st d = Some e then None else allConvictsByDom st e)"
proof (induction xs arbitrary: st)
  case Nil
  then show ?case by simp
next
  case (Cons x xs)
  show ?case
    by (cases "obj_domEl st x") (auto simp: Cons.IH unregister_map)
qed

lemma fold_unregister_el_parent:
  "el_parent (fold unregister xs st) e =
    (if \<exists>d \<in> set xs. obj_domEl st d = Some e then None else el_parent st e)"
proof (induction xs arbitrary: st)
  case Nil
  then show ?case by simp
next
  case (Cons x xs)
  show ?case
    by (cases "obj_domEl st x") (auto simp: Cons.IH unregister_el_parent)
qed

section \<open>removeConvict unregisters the nodes of the tree, descendants first\<close>

lemma set_postorder: "set (postorder t) = set (nodes t)"
  by (induction t) auto

lemma root_in_nodes: "root t \<in> set (nodes t)"
  by (cases t) simp

lemma shape_parent:
  assumes "shape st t" and "x \<in> set (nodes t)" and "x \<noteq> root t"
  shows "\<exists>q \<in> set (nodes t). obj_parent st x = Some q \<and> x \<in> set (obj_children st q)"
  using assms
proof (induction t)
  case (Node c ts)
  from Node.prems(2,3) obtain t where t: "t \<in> set ts" and x: "x \<in> set (nodes t)"
    by auto
  from Node.prems(1) t have par: "obj_parent st (root t) = Some c" and sh: "shape st t"
    and ch: "obj_children st c = map root ts"
    by (simp_all add: list_all_iff)
  show ?case
  proof (cases "x = root t")
    case True
    with par ch t show ?thesis by auto
  next
    case False
    from Node.IH [OF t sh x False] t show ?thesis by auto
  qed
qed

lemma shape_frame:
  assumes "\<forall>x \<in> set (nodes t). obj_children st' x = obj_children st x"
    and "\<forall>x \<in> set (nodes t). obj_parent st' x = obj_parent st x"
    and "shape st t"
  shows "shape st' t"
  using assms
proof (induction t)
  case (Node c ts)
  have "obj_parent st' (root t) = Some c \<and> shape st' t" if t: "t \<in> set ts" for t
  proof -
    from Node.prems(3) t have par: "obj_parent st (root t) = Some c" and sh: "shape st t"
      by (simp_all add: list_all_iff)
    have sub: "set (nodes t) \<subseteq> set (nodes (Node c ts))"
      using t by auto
    with root_in_nodes [of t] Node.prems(2) par have "obj_parent st' (root t) = Some c"
      by (metis subsetD)
    moreover have "shape st' t"
      using Node.IH [OF t _ _ sh] Node.prems(1,2) sub by (meson subsetD)
    ultimately show ?thesis by simp
  qed
  with Node.prems show ?case
    by (simp add: list_all_iff)
qed

text \<open>What the recursion itself relies on.\<close>

lemma removeChildren_closed:
  assumes IH: "\<And>t st fuel. t \<in> set ts \<Longrightarrow> shape st t \<Longrightarrow> distinct (nodes t) \<Longrightarrow>
      (\<forall>d \<in> set (nodes t). \<forall>e. obj_domEl st d = Some e \<longrightarrow> allConvictsByDom st e = Some d) \<Longrightarrow>
      height t \<le> fuel \<Longrightarrow>
      removeConvict fuel (Some (root t)) st = Some (fold unregister (postorder t) st)"
    and sh: "\<forall>t \<in> set ts. shape st t"
    and di: "distinct (concat (map nodes ts))"
    and ma: "\<forall>d \<in> set (concat (map nodes ts)). \<forall>e. obj_domEl st d = Some e \<longrightarrow> allConvictsByDom st e = Some d"
    and pa: "\<forall>t \<in> set ts. \<forall>x \<in> set (concat (map nodes ts)). obj_parent st (root t) \<noteq> Some x"
    and he: "\<forall>t \<in> set ts. height t \<le> n"
  shows "removeChildren n (map root ts) st = Some (fold unregister (concat (map postorder ts)) st)"
  using assms
proof (induction ts arbitrary: st)
  case Nil
  then show ?case by simp
next
  case (Cons t ts)
  let ?st1 = "fold unregister (postorder t) st"
  have t_sh: "shape st t" and t_di: "distinct (nodes t)" and t_he: "height t \<le> n"
    using Cons.prems(2,3,6) by simp_all
  have t_ma: "\<forall>d \<in> set (nodes t). \<forall>e. obj_domEl st d = Some e \<longrightarrow> allConvictsByDom st e = Some d"
    using Cons.prems(4) by simp
  have target: "(case obj_domEl st (root t) of Some domNode \<Rightarrow> allConvictsByDom st domNode
      | None \<Rightarrow> Some (root t)) = Some (root t)"
    using t_ma root_in_nodes [of t] by (auto split: option.splits)
  have first: "removeConvict n (Some (root t)) st = Some ?st1"
    using Cons.prems(1) [of t st n] t_sh t_di t_ma t_he by simp
  have disj: "set (nodes t) \<inter> set (concat (map nodes ts)) = {}"
    using Cons.prems(3) by auto
  have par_in: "obj_parent st y \<noteq> Some x" if y: "y \<in> set (nodes t)" and x: "x \<in> set (concat (map nodes ts))" for x y
  proof (cases "y = root t")
    case True
    with Cons.prems(5) x show ?thesis by simp
  next
    case False
    from shape_parent [OF t_sh y False] obtain q where "q \<in> set (nodes t)" "obj_parent st y = Some q"
      by blast
    with disj x show ?thesis by auto
  qed
  have children_same: "obj_children ?st1 x = obj_children st x" if "x \<in> set (concat (map nodes ts))" for x
    using that par_in by (intro fold_unregister_children_other) (simp add: set_postorder)
  have parent_same: "obj_parent ?st1 x = obj_parent st x" if "x \<in> set (concat (map nodes ts))" for x
    using that disj by (intro fold_unregister_parent_other) (auto simp: set_postorder)
  have map_same: "allConvictsByDom ?st1 e = Some d"
    if d: "d \<in> set (concat (map nodes ts))" and e: "obj_domEl st d = Some e" for d e
  proof -
    from Cons.prems(4) d e have de: "allConvictsByDom st e = Some d" by simp
    have "\<not> (\<exists>y \<in> set (postorder t). obj_domEl st y = Some e)"
    proof
      assume "\<exists>y \<in> set (postorder t). obj_domEl st y = Some e"
      then obtain y where y: "y \<in> set (nodes t)" "obj_domEl st y = Some e"
        by (auto simp: set_postorder)
      with t_ma have "allConvictsByDom st e = Some y" by simp
      with de have "y = d" by simp
      with y(1) d disj show False by auto
    qed
    with de show ?thesis
      by (simp add: fold_unregister_map)
  qed
  have rest: "removeChildren n (map root ts) ?st1 = Some (fold unregister (concat (map postorder ts)) ?st1)"
  proof (rule Cons.IH)
    show "\<And>t' st' fuel. t' \<in> set ts \<Longrightarrow> shape st' t' \<Longrightarrow> distinct (nodes t') \<Longrightarrow>
      (\<forall>d \<in> set (nodes t'). \<forall>e. obj_domEl st' d = Some e \<longrightarrow> allConvictsByDom st' e = Some d) \<Longrightarrow>
      height t' \<le> fuel \<Longrightarrow>
      removeConvict fuel (Some (root t')) st' = Some (fold unregister (postorder t') st')"
      using Cons.prems(1) by simp
    show "\<forall>t' \<in> set ts. shape ?st1 t'"
    proof
      fix t' assume t': "t' \<in> set ts"
      then have sub: "set (nodes t') \<subseteq> set (concat (map nodes ts))" by auto
      show "shape ?st1 t'"
      proof (rule shape_frame)
        show "\<forall>x \<in> set (nodes t'). obj_children ?st1 x = obj_children st x"
          using children_same sub by blast
        show "\<forall>x \<in> set (nodes t'). obj_parent ?st1 x = obj_parent st x"
          using parent_same sub by blast
        show "shape st t'"
          using Cons.prems(2) t' by simp
      qed
    qed
    show "distinct (concat (map nodes ts))"
      using Cons.prems(3) by simp
    show "\<forall>d \<in> set (concat (map nodes ts)). \<forall>e. obj_domEl ?st1 d = Some e
        \<longrightarrow> allConvictsByDom ?st1 e = Some d"
      using map_same by simp
    show "\<forall>t' \<in> set ts. \<forall>x \<in> set (concat (map nodes ts)). obj_parent ?st1 (root t') \<noteq> Some x"
    proof (intro ballI)
      fix t' x assume t': "t' \<in> set ts" and x: "x \<in> set (concat (map nodes ts))"
      from t' root_in_nodes [of t'] have "root t' \<in> set (concat (map nodes ts))" by auto
      then have "obj_parent ?st1 (root t') = obj_parent st (root t')"
        by (rule parent_same)
      with Cons.prems(5) t' x show "obj_parent ?st1 (root t') \<noteq> Some x" by simp
    qed
    show "\<forall>t' \<in> set ts. height t' \<le> n"
      using Cons.prems(6) by simp
  qed
  show ?case
    using target first rest by simp
qed

lemma fold_max_le: "fold max xs (a::nat) \<le> n \<longleftrightarrow> a \<le> n \<and> (\<forall>x \<in> set xs. x \<le> n)"
  by (induction xs arbitrary: a) auto

lemma removeConvict_closed:
  assumes "shape st t" and "distinct (nodes t)"
    and "\<forall>d \<in> set (nodes t). \<forall>e. obj_domEl st d = Some e \<longrightarrow> allConvictsByDom st e = Some d"
    and "height t \<le> fuel"
  shows "removeConvict fuel (Some (root t)) st = Some (fold unregister (postorder t) st)"
  using assms
proof (induction t arbitrary: st fuel)
  case (Node c ts)
  from Node.prems(4) obtain n where fuel: "fuel = Suc n" and he: "\<forall>t \<in> set ts. height t \<le> n"
    by (cases fuel) (auto simp: fold_max_le)
  from Node.prems(1) have ch: "obj_children st c = map root ts"
    and sh: "\<forall>t \<in> set ts. shape st t" and par: "\<forall>t \<in> set ts. obj_parent st (root t) = Some c"
    by (simp_all add: list_all_iff)
  from Node.prems(2) have di: "distinct (concat (map nodes ts))" and c: "c \<notin> set (concat (map nodes ts))"
    by simp_all
  have "removeChildren n (map root ts) st = Some (fold unregister (concat (map postorder ts)) st)"
  proof (rule removeChildren_closed)
    show "\<And>t st fuel. t \<in> set ts \<Longrightarrow> shape st t \<Longrightarrow> distinct (nodes t) \<Longrightarrow>
      (\<forall>d \<in> set (nodes t). \<forall>e. obj_domEl st d = Some e \<longrightarrow> allConvictsByDom st e = Some d) \<Longrightarrow>
      height t \<le> fuel \<Longrightarrow>
      removeConvict fuel (Some (root t)) st = Some (fold unregister (postorder t) st)"
      using Node.IH by blast
    show "\<forall>t \<in> set ts. shape st t" by (rule sh)
    show "distinct (concat (map nodes ts))" by (rule di)
    show "\<forall>d \<in> set (concat (map nodes ts)). \<forall>e. obj_domEl st d = Some e \<longrightarrow> allConvictsByDom st e = Some d"
      using Node.prems(3) by simp
    show "\<forall>t \<in> set ts. \<forall>x \<in> set (concat (map nodes ts)). obj_parent st (root t) \<noteq> Some x"
      using par c by auto
    show "\<forall>t \<in> set ts. height t \<le> n" by (rule he)
  qed
  then show ?case
    by (simp add: fuel ch)
qed

lemma wf_subtree_parents:
  assumes "wf_subtree st t" and "d \<in> set (nodes t)" and "obj_parent st d = Some q"
  shows "d \<in> set (obj_children st q)"
proof (cases "d = root t")
  case True
  with assms(1,3) show ?thesis
    by (simp add: wf_subtree_def attached_def)
next
  case False
  from assms(1) have "shape st t" by (simp add: wf_subtree_def)
  from shape_parent [OF this assms(2) False] assms(3) show ?thesis by auto
qed

lemma wf_subtree_root_detached:
  assumes wf: "wf_subtree st t" and p: "obj_parent st (root t) = Some p"
  shows "root t \<notin> set (obj_children (fold unregister (postorder t) st) p)"
proof (cases t)
  case (Node c ts)
  let ?ds = "concat (map postorder ts)"
  let ?st1 = "fold unregister ?ds st"
  from wf Node have sh: "shape st (Node c ts)" and di: "distinct (c # concat (map nodes ts))"
    by (simp_all add: wf_subtree_def)
  from wf p Node have out: "p \<notin> set (nodes (Node c ts))" and dc: "distinct (obj_children st p)"
    by (simp_all add: wf_subtree_def attached_def)
  have ds: "set ?ds = set (concat (map nodes ts))"
    by (auto simp: set_postorder)
  have c_out: "c \<notin> set ?ds"
    using di ds by simp
  have par1: "obj_parent ?st1 c = Some p"
    using p Node c_out by (simp add: fold_unregister_parent_other)
  have "\<forall>x \<in> set ?ds. obj_parent st x \<noteq> Some p"
  proof
    fix x assume x: "x \<in> set ?ds"
    with ds c_out have "x \<in> set (nodes (Node c ts))" and "x \<noteq> root (Node c ts)"
      by auto
    from shape_parent [OF sh this] obtain q where "q \<in> set (nodes (Node c ts))" "obj_parent st x = Some q"
      by blast
    with out show "obj_parent st x \<noteq> Some p" by auto
  qed
  then have ch1: "obj_children ?st1 p = obj_children st p"
    by (rule fold_unregister_children_other)
  have "obj_children (fold unregister (postorder t) st) p = remove1 c (obj_children st p)"
    using par1 ch1 Node by (simp add: unregister_children)
  with dc Node show ?thesis by simp
qed


lemma wf_subtree_mapped:
  assumes "wf_subtree st t" and "d \<in> set (nodes t)" and "obj_domEl st d = Some e"
  shows "allConvictsByDom st e = Some d"
  using assms by (force simp: wf_subtree_def mapped_def list_all_iff)

lemma element_removed_closed:
  assumes "wf_subtree st t" and "allConvictsByDom st el = Some (root t)" and "height t \<le> fuel"
  shows "element_removed fuel el st = Some (fold unregister (postorder t) st)"
proof -
  from assms(1) have "shape st t" and "distinct (nodes t)"
    by (simp_all add: wf_subtree_def)
  moreover have "\<forall>d \<in> set (nodes t). \<forall>e. obj_domEl st d = Some e \<longrightarrow> allConvictsByDom st e = Some d"
    using wf_subtree_mapped [OF assms(1)] by blast
  ultimately have "removeConvict fuel (Some (root t)) st = Some (fold unregister (postorder t) st)"
    using assms(3) by (rule removeConvict_closed)
  with assms(2) show ?thesis
    by (simp add: element_removed_def)
qed

text \<open>
  What the removal does below the node \<open>c\<close> of a removed element \<open>el\<close> in the scene
  graph. For a cell whose invariants hold on the part of the scene graph below \<open>c\<close>
  (described by the tree \<open>t\<close>), and with fuel for the depth of that tree: the handler
  returns, having unregistered the nodes of the tree in post-order (every descendant in
  the scene graph before its ancestor, \<open>c\<close> last); afterwards no node of the tree is
  in \<open>classyConvicts\<close>, \<open>namedConvicts\<close> or \<open>constantConvicts\<close>, the arrays keeping
  exactly their other members; no element is mapped to a node of the tree; every node
  of the tree has lost its parent, and \<open>c\<close> is no longer among the children of the
  object it was attached to.
\<close>

lemma removeConvict_scene_subtree:
  assumes "wf_subtree st t" and "allConvictsByDom st el = Some (root t)" and "height t \<le> fuel"
  shows "\<exists>st'. element_removed fuel el st = Some st'
      \<and> st' = fold unregister (postorder t) st
      \<and> postorder t = concat (map postorder (case t of Node c ts \<Rightarrow> ts)) @ [root t]
      \<and> (\<forall>d \<in> set (nodes t).
            d \<notin> set (classyConvicts st') \<and> d \<notin> set (namedConvicts st')
            \<and> d \<notin> set (constantConvicts st')
            \<and> (\<forall>e. allConvictsByDom st' e \<noteq> Some d)
            \<and> obj_parent st' d = None)
      \<and> set (classyConvicts st') = set (classyConvicts st) - set (nodes t)
      \<and> set (namedConvicts st') = set (namedConvicts st) - set (nodes t)
      \<and> set (constantConvicts st') = set (constantConvicts st) - set (nodes t)
      \<and> (\<forall>e d. allConvictsByDom st' e = Some d \<longrightarrow> allConvictsByDom st e = Some d)
      \<and> (\<forall>p. obj_parent st (root t) = Some p \<longrightarrow> root t \<notin> set (obj_children st' p))"
proof -
  let ?st' = "fold unregister (postorder t) st"
  from assms(1) have mp: "mapped st t"
    and d1: "distinct (classyConvicts st)" and d2: "distinct (namedConvicts st)"
    and d3: "distinct (constantConvicts st)"
    by (simp_all add: wf_subtree_def)
  from mp have conv: "\<forall>e d. allConvictsByDom st e = Some d \<longrightarrow> d \<in> set (nodes t) \<longrightarrow> obj_domEl st d = Some e"
    by (simp add: mapped_def)
  have run: "element_removed fuel el st = Some ?st'"
    using assms by (rule element_removed_closed)
  have post: "postorder t = concat (map postorder (case t of Node c ts \<Rightarrow> ts)) @ [root t]"
    by (cases t) simp
  have arr1: "set (classyConvicts ?st') = set (classyConvicts st) - set (nodes t)"
    using fold_fastRemove_distinct [OF d1, of "postorder t"]
    by (simp add: fold_unregister_arrays set_postorder)
  have arr2: "set (namedConvicts ?st') = set (namedConvicts st) - set (nodes t)"
    using fold_fastRemove_distinct [OF d2, of "postorder t"]
    by (simp add: fold_unregister_arrays set_postorder)
  have arr3: "set (constantConvicts ?st') = set (constantConvicts st) - set (nodes t)"
    using fold_fastRemove_distinct [OF d3, of "postorder t"]
    by (simp add: fold_unregister_arrays set_postorder)
  have kept: "allConvictsByDom st e = Some d \<and> d \<notin> set (nodes t)"
    if e: "allConvictsByDom ?st' e = Some d" for e d
  proof -
    from e have none: "\<not> (\<exists>y \<in> set (postorder t). obj_domEl st y = Some e)"
      and old: "allConvictsByDom st e = Some d"
      by (auto simp: fold_unregister_map split: if_splits)
    have "d \<notin> set (nodes t)"
    proof
      assume d: "d \<in> set (nodes t)"
      with conv old have "obj_domEl st d = Some e" by simp
      with none d show False by (auto simp: set_postorder)
    qed
    with old show ?thesis by simp
  qed
  have cleared: "obj_parent ?st' d = None" if "d \<in> set (nodes t)" for d
  proof (rule fold_unregister_parent_cleared)
    show "\<forall>d \<in> set (postorder t). \<forall>q. obj_parent st d = Some q \<longrightarrow> d \<in> set (obj_children st q)"
      using wf_subtree_parents [OF assms(1)] by (simp add: set_postorder)
    show "d \<in> set (postorder t)"
      using that by (simp add: set_postorder)
  qed
  have detached: "\<forall>p. obj_parent st (root t) = Some p \<longrightarrow> root t \<notin> set (obj_children ?st' p)"
    using wf_subtree_root_detached [OF assms(1)] by blast
  have nodes_gone: "\<forall>d \<in> set (nodes t).
      d \<notin> set (classyConvicts ?st') \<and> d \<notin> set (namedConvicts ?st')
      \<and> d \<notin> set (constantConvicts ?st')
      \<and> (\<forall>e. allConvictsByDom ?st' e \<noteq> Some d)
      \<and> obj_parent ?st' d = None"
  proof (intro ballI conjI allI)
    fix d assume d: "d \<in> set (nodes t)"
    show "d \<notin> set (classyConvicts ?st')" using d by (simp add: arr1)
    show "d \<notin> set (namedConvicts ?st')" using d by (simp add: arr2)
    show "d \<notin> set (constantConvicts ?st')" using d by (simp add: arr3)
    show "obj_parent ?st' d = None" using d by (rule cleared)
    fix e show "allConvictsByDom ?st' e \<noteq> Some d"
      using kept [of e d] d by blast
  qed
  have kept': "\<forall>e d. allConvictsByDom ?st' e = Some d \<longrightarrow> allConvictsByDom st e = Some d"
    using kept by blast
  show ?thesis
    apply (rule exI [of _ ?st'])
    apply (intro conjI)
            apply (rule run)
           apply (rule refl)
          apply (rule post)
         apply (rule nodes_gone)
        apply (rule arr1)
       apply (rule arr2)
      apply (rule arr3)
     apply (rule kept')
    apply (rule detached)
    done
qed



text \<open>The invariants hold of the small cell and the tree of its node 1.\<close>

lemma example_wf: "wf_subtree example_cell example_tree"
  by (auto simp: wf_subtree_def mapped_def attached_def example_cell_def example_tree_def
      split: if_splits)

section \<open>Removal of an element: what is left behind, and what happens to the document\<close>

lemma scan_then_remove:
  "Option.bind (ScanChildren 4 [] wrapper_document 0 [10, 12] empty_cell)
     (\<lambda>st1. map_option
        (\<lambda>st2. ((map (allConvictsByDom st1) [10, 11, 14], map (obj_parent st1) [1, 2, 4],
                 obj_children st1 0, obj_children st1 1, classyConvicts st1, el_parent st1 14),
                (classyConvicts st2, namedConvicts st2, constantConvicts st2,
                 map (allConvictsByDom st2) [10, 11, 14], map (obj_parent st2) [1, 2, 4],
                 obj_children st2 0, in_document 5 (el_parent st2) 9 11,
                 map (el_parent st2) [10, 13, 11, 14])))
        (element_removed 3 10 (st1\<lparr>el_parent := (el_parent st1)(10 := None)\<rparr>)))
   = Some (([Some 1, Some 2, Some 4], [Some 0, Some 0, Some 1], [1, 2, 3], [4], [1, 2, 4, 3], Some 10),
           ([3, 2], [], [], [None, Some 2, None], [None, Some 0, None], [2, 3], False,
            [None, Some 10, Some 13, None]))"
  by code_simp

lemma scan_then_move:
  "Option.bind (ScanChildren 4 [] wrapper_document 0 [10, 12] empty_cell)
     (\<lambda>st1. map_option
        (\<lambda>st2. (in_document 5 ((el_parent st1)(10 \<mapsto> 12)) 9 10, allConvictsByDom st1 10,
                 el_parent st2 10, in_document 5 (el_parent st2) 9 10))
        (element_removed 3 10 (st1\<lparr>el_parent := (el_parent st1)(10 \<mapsto> 12)\<rparr>)))
   = Some (True, Some 1, None, False)"
  by code_simp

text \<open>
  Claim C4 at the document \<open><mesh class="a"><div><mesh class="b"></mesh></div><mesh
  class="d"></mesh></mesh>\<close>. The scan attaches the node of the inner mesh \<open>b\<close>
  (element 11, node 2) to the scene, because its parent element, the \<open><div>\<close>, has no
  node; the node of \<open>d\<close> (element 14, node 4) is a child of the node of \<open>a\<close> (element
  10, node 1). When element 10 is removed from the document, the observer's record
  lists element 10 only, and the handler removes node 1 and, through the scene graph,
  node 4. Element 11 has left the document with its ancestor, but its node 2 is still
  in \<open>classyConvicts\<close>, still mapped from element 11, and still a child of the scene.
\<close>

theorem removal_leaves_wrapped_descendant:
  "\<exists>st1 st2.
     ScanChildren 4 [] wrapper_document 0 [10, 12] empty_cell = Some st1
     \<and> allConvictsByDom st1 10 = Some 1 \<and> allConvictsByDom st1 11 = Some 2
     \<and> allConvictsByDom st1 14 = Some 4
     \<and> obj_parent st1 2 = Some 0 \<and> obj_parent st1 4 = Some 1
     \<and> classyConvicts st1 = [1, 2, 4, 3]
     \<and> element_removed 3 10 (st1\<lparr>el_parent := (el_parent st1)(10 := None)\<rparr>) = Some st2
     \<and> el_parent st2 11 = Some 13 \<and> el_parent st2 13 = Some 10 \<and> el_parent st2 10 = None
     \<and> \<not> in_document 5 (el_parent st2) 9 11
     \<and> 1 \<notin> set (classyConvicts st2) \<and> 4 \<notin> set (classyConvicts st2)
     \<and> allConvictsByDom st2 10 = None \<and> allConvictsByDom st2 14 = None
     \<and> 2 \<in> set (classyConvicts st2)
     \<and> allConvictsByDom st2 11 = Some 2
     \<and> obj_parent st2 2 = Some 0 \<and> 2 \<in> set (obj_children st2 0)"
proof -
  from scan_then_remove obtain st1 st2 where
    scan: "ScanChildren 4 [] wrapper_document 0 [10, 12] empty_cell = Some st1"
    and rem: "element_removed 3 10 (st1\<lparr>el_parent := (el_parent st1)(10 := None)\<rparr>) = Some st2"
    and obs1: "(map (allConvictsByDom st1) [10, 11, 14], map (obj_parent st1) [1, 2, 4],
                 obj_children st1 0, obj_children st1 1, classyConvicts st1, el_parent st1 14)
        = ([Some 1, Some 2, Some 4], [Some 0, Some 0, Some 1], [1, 2, 3], [4], [1, 2, 4, 3], Some 10)"
    and obs2: "(classyConvicts st2, namedConvicts st2, constantConvicts st2,
                 map (allConvictsByDom st2) [10, 11, 14], map (obj_parent st2) [1, 2, 4],
                 obj_children st2 0, in_document 5 (el_parent st2) 9 11,
                 map (el_parent st2) [10, 13, 11, 14])
        = ([3, 2], [], [], [None, Some 2, None], [None, Some 0, None], [2, 3], False,
            [None, Some 10, Some 13, None])"
    by (auto simp: bind_eq_Some_conv simp del: ScanElement.simps in_document.simps)
  from obs1 obs2 have "allConvictsByDom st1 10 = Some 1 \<and> allConvictsByDom st1 11 = Some 2
     \<and> allConvictsByDom st1 14 = Some 4
     \<and> obj_parent st1 2 = Some 0 \<and> obj_parent st1 4 = Some 1
     \<and> classyConvicts st1 = [1, 2, 4, 3]
     \<and> el_parent st2 11 = Some 13 \<and> el_parent st2 13 = Some 10 \<and> el_parent st2 10 = None
     \<and> \<not> in_document 5 (el_parent st2) 9 11
     \<and> 1 \<notin> set (classyConvicts st2) \<and> 4 \<notin> set (classyConvicts st2)
     \<and> allConvictsByDom st2 10 = None \<and> allConvictsByDom st2 14 = None
     \<and> 2 \<in> set (classyConvicts st2)
     \<and> allConvictsByDom st2 11 = Some 2
     \<and> obj_parent st2 2 = Some 0 \<and> 2 \<in> set (obj_children st2 0)"
    by (simp del: in_document.simps)
  with scan rem show ?thesis
    by blast
qed

text \<open>
  Claim C5 at the same document. When element 10 is removed from the document, the
  handler calls \<open>remove()\<close> on the source element of every node it destroys: element 14,
  which was a child of element 10, is taken out of it by the engine. And when the
  application moves element 10 into element 12, the observer reports the move as a
  removal followed by an addition; when the handler runs, element 10 is in the
  document, at its new place, and the handler of the removal takes it out: the engine
  removes a source element from the document tree.
\<close>

theorem removal_mutates_source_elements:
  "\<exists>st1 st2 st3.
     ScanChildren 4 [] wrapper_document 0 [10, 12] empty_cell = Some st1
     \<and> allConvictsByDom st1 10 = Some 1 \<and> allConvictsByDom st1 14 = Some 4
     \<and> el_parent st1 14 = Some 10
     \<and> element_removed 3 10 (st1\<lparr>el_parent := (el_parent st1)(10 := None)\<rparr>) = Some st2
     \<and> el_parent st2 14 = None
     \<and> in_document 5 ((el_parent st1)(10 \<mapsto> 12)) 9 10
     \<and> element_removed 3 10 (st1\<lparr>el_parent := (el_parent st1)(10 \<mapsto> 12)\<rparr>) = Some st3
     \<and> el_parent st3 10 = None
     \<and> \<not> in_document 5 (el_parent st3) 9 10"
proof -
  from scan_then_remove obtain st1 st2 where
    scan: "ScanChildren 4 [] wrapper_document 0 [10, 12] empty_cell = Some st1"
    and rem: "element_removed 3 10 (st1\<lparr>el_parent := (el_parent st1)(10 := None)\<rparr>) = Some st2"
    and obs1: "(map (allConvictsByDom st1) [10, 11, 14], map (obj_parent st1) [1, 2, 4],
                 obj_children st1 0, obj_children st1 1, classyConvicts st1, el_parent st1 14)
        = ([Some 1, Some 2, Some 4], [Some 0, Some 0, Some 1], [1, 2, 3], [4], [1, 2, 4, 3], Some 10)"
    and obs2: "(classyConvicts st2, namedConvicts st2, constantConvicts st2,
                 map (allConvictsByDom st2) [10, 11, 14], map (obj_parent st2) [1, 2, 4],
                 obj_children st2 0, in_document 5 (el_parent st2) 9 11,
                 map (el_parent st2) [10, 13, 11, 14])
        = ([3, 2], [], [], [None, Some 2, None], [None, Some 0, None], [2, 3], False,
            [None, Some 10, Some 13, None])"
    by (auto simp: bind_eq_Some_conv simp del: ScanElement.simps in_document.simps)
  from scan_then_move scan obtain st3 where
    mv: "element_removed 3 10 (st1\<lparr>el_parent := (el_parent st1)(10 \<mapsto> 12)\<rparr>) = Some st3"
    and obs3: "(in_document 5 ((el_parent st1)(10 \<mapsto> 12)) 9 10, allConvictsByDom st1 10,
                 el_parent st3 10, in_document 5 (el_parent st3) 9 10)
        = (True, Some 1, None, False)"
    by (auto simp: bind_eq_Some_conv simp del: ScanElement.simps in_document.simps)
  from obs1 obs2 obs3 have "allConvictsByDom st1 10 = Some 1 \<and> allConvictsByDom st1 14 = Some 4
     \<and> el_parent st1 14 = Some 10 \<and> el_parent st2 14 = None
     \<and> in_document 5 ((el_parent st1)(10 \<mapsto> 12)) 9 10
     \<and> el_parent st3 10 = None
     \<and> \<not> in_document 5 (el_parent st3) 9 10"
    by (simp del: in_document.simps)
  with scan rem mv show ?thesis
    by blast
qed

end
